theory Spec2Isabelle
  imports Complex_Main
begin

section \<open>Data model\<close>

text \<open>
  The status enum of \<^verbatim>\<open>mwaa.subprocess\<close>, with the four members the supervisor uses
  (declared in \<^verbatim>\<open>process_manager.py\<close> of the older image).
\<close>

datatype ProcessStatus =
    FINISHED_WITH_NO_MORE_LOGS
  | FINISHED_WITH_LOG_READ
  | RUNNING_WITH_NO_LOG_READ
  | RUNNING_WITH_LOG_READ

text \<open>
  Modelled from the spec: the condition contract of \<^verbatim>\<open>mwaa.subprocess.conditions\<close>
  (\<^verbatim>\<open>ProcessCondition\<close>, \<^verbatim>\<open>ProcessConditionResponse\<close>), which is imported by
  \<^verbatim>\<open>subprocess.py\<close> but is not among the sources. A response carries
  \<^verbatim>\<open>successful\<close> and \<^verbatim>\<open>message\<close>; a condition is an object with a private state
  of some type \<open>'s\<close> whose \<^verbatim>\<open>check(status)\<close> answers from that state and may update it.
  \<^verbatim>\<open>prepare()\<close> and \<^verbatim>\<open>close()\<close> are recorded as events only.
\<close>

record ProcessConditionResponse =
  successful :: bool
  message :: string

record 's ProcessCondition =
  cond_state :: 's
  cond_check :: "'s \<Rightarrow> ProcessStatus \<Rightarrow> ProcessConditionResponse \<times> 's"

text \<open>Exceptions are values. Time is in seconds, as \<^verbatim>\<open>time.time()\<close> gives it.\<close>

datatype exn =
    RuntimeError string
  | AttributeError string
  | OSError string
  | UnicodeDecodeError

datatype signal = SIGTERM | SIGKILL

text \<open>The messages written to the module logger, with their variable parts.\<close>

datatype log_msg =
    Starting
  | Started nat
  | StartFailed exn
  | Stopping
  | StoppedDueTo "string list"
  | Killing
  | SigtermSendFailed
  | SigtermTimeout real
  | Killed "int option"

text \<open>
  Everything a supervisor does to the outside world is an event of its trace:
  calls on the conditions (by index), calls on the child's handle, signals, log lines
  and sleeps. \<open>Signal\<close> is a signal that was sent, \<open>SignalFailed\<close> a send that raised,
  \<open>SignalSkipped\<close> a send that was not made because the child was found to have exited.
  \<open>Communicate t\<close> is \<^verbatim>\<open>process.communicate(timeout=t)\<close>;
  \<open>Communicate None\<close> would be a wait with no timeout.
\<close>

datatype event =
    Prepare nat
  | Check nat
  | CloseCondition nat
  | Spawn "string list"
  | AtexitRegister
  | Readline
  | Poll
  | Signal signal
  | SignalFailed signal
  | SignalSkipped signal
  | Communicate "real option"
  | ProcessLog string
  | ModuleLog log_msg
  | Sleep

text \<open>
  The \<^verbatim>\<open>Subprocess\<close> object. \<open>process\<close> is the \<^verbatim>\<open>Popen\<close> handle (its pid) or
  \<^verbatim>\<open>None\<close>; \<open>process_status\<close> is an attribute that does not exist until
  \<^verbatim>\<open>start\<close> assigns it. The environment and the loggers are not state of the model:
  log lines appear in the trace.
\<close>

record 's Subprocess =
  cmd :: "string list"
  friendly_name :: "string option"
  conditions :: "'s ProcessCondition list"
  sigterm_patience_interval :: real
  start_time :: "real option"
  process :: "nat option"
  process_status :: "ProcessStatus option"

definition SIGTERM_DEFAULT_PATIENCE_INTERVAL :: real where
  "SIGTERM_DEFAULT_PATIENCE_INTERVAL = 90"

definition init_Subprocess ::
  "string list \<Rightarrow> string option \<Rightarrow> 's ProcessCondition list \<Rightarrow> real \<Rightarrow> 's Subprocess" where
  "init_Subprocess c name conds patience =
     \<lparr>cmd = c, friendly_name = name, conditions = conds,
      sigterm_patience_interval = patience,
      start_time = None, process = None, process_status = None\<rparr>"

section \<open>Bytes and text\<close>

text \<open>
  The child's output is bytes; \<^verbatim>\<open>bytes.decode("utf-8")\<close> raises
  \<^verbatim>\<open>UnicodeDecodeError\<close> unless they are well-formed UTF-8. For a lead byte,
  \<open>utf8_tail\<close> gives the number of bytes that must follow and the range of the first of
  them (the others are in 80..BF). Decoded text is kept as its bytes.
\<close>

definition utf8_tail :: "nat \<Rightarrow> (nat \<times> nat \<times> nat) option" where
  "utf8_tail b =
     (if b < 0x80 then Some (0, 0x80, 0xBF)
      else if 0xC2 \<le> b \<and> b \<le> 0xDF then Some (1, 0x80, 0xBF)
      else if b = 0xE0 then Some (2, 0xA0, 0xBF)
      else if b = 0xED then Some (2, 0x80, 0x9F)
      else if 0xE1 \<le> b \<and> b \<le> 0xEF then Some (2, 0x80, 0xBF)
      else if b = 0xF0 then Some (3, 0x90, 0xBF)
      else if 0xF1 \<le> b \<and> b \<le> 0xF3 then Some (3, 0x80, 0xBF)
      else if b = 0xF4 then Some (3, 0x80, 0x8F)
      else None)"

function valid_utf8 :: "nat list \<Rightarrow> bool" where
  "valid_utf8 [] = True"
| "valid_utf8 (b # bs) =
     (case utf8_tail b of
        None \<Rightarrow> False
      | Some (n, lo, hi) \<Rightarrow>
          n \<le> length bs \<and>
          list_all (\<lambda>c. lo \<le> c \<and> c \<le> hi) (take (min n 1) bs) \<and>
          list_all (\<lambda>c. 0x80 \<le> c \<and> c \<le> 0xBF) (take n bs) \<and>
          valid_utf8 (drop n bs))"
  by pat_completeness auto
termination
  by (relation "measure length") auto

definition decode :: "string \<Rightarrow> exn + string" where
  "decode bs = (if valid_utf8 (map of_char bs) then Inr bs else Inl UnicodeDecodeError)"

section \<open>What the operating system answers\<close>

text \<open>
  The child process and the clock are outside the program. Each operation takes, as an
  argument, what the system answers to the calls it makes.

  \<^verbatim>\<open>Popen.terminate()\<close> and \<^verbatim>\<open>Popen.kill()\<close> are \<^verbatim>\<open>send_signal\<close>: it polls
  first and sends nothing to a child that has exited; otherwise \<^verbatim>\<open>os.kill\<close> delivers
  the signal or raises \<^verbatim>\<open>OSError\<close>.
\<close>

datatype send_obs =
    Delivered
  | AlreadyExited int
  | SendRaises string

text \<open>
  For the kill protocol: what \<^verbatim>\<open>poll()\<close> returns on entry; what
  \<^verbatim>\<open>terminate()\<close> meets; what \<^verbatim>\<open>kill()\<close> meets when it is called because
  \<^verbatim>\<open>terminate()\<close> raised; after how many seconds \<^verbatim>\<open>communicate\<close> would return
  (\<open>None\<close>: never), with which return code and which trailing output; what
  \<^verbatim>\<open>kill()\<close> meets when it is called after the timeout.
\<close>

record kill_obs =
  ko_poll :: "int option"
  ko_terminate :: send_obs
  ko_kill_after_failure :: send_obs
  ko_exit_delay :: "real option"
  ko_returncode :: int
  ko_outs :: string
  ko_kill_after_timeout :: send_obs

text \<open>
  For one iteration of the execution loop: whether the child's stdout is open, what
  \<^verbatim>\<open>readline()\<close> gives (a raised exception, or the bytes, empty when nothing is
  there), what \<^verbatim>\<open>poll()\<close> returns, the time the throttle reads, and the answers to
  the kill protocol should it run.
\<close>

record step_obs =
  so_stdout_open :: bool
  so_readline :: "exn + string"
  so_poll :: "int option"
  so_time :: real
  so_kill :: kill_obs

record start_obs =
  st_time :: real
  st_spawn :: "exn + nat"

section \<open>The kill protocol\<close>

text \<open>
  \<^verbatim>\<open>Popen.send_signal\<close>, given the return code the handle already holds. The result is
  the exception, or the return code the handle holds afterwards.
\<close>

definition send_signal ::
  "signal \<Rightarrow> int option \<Rightarrow> send_obs \<Rightarrow> (exn + int option) \<times> event list" where
  "send_signal sig returncode ob =
     (case returncode of
        Some rc \<Rightarrow> (Inr (Some rc), [SignalSkipped sig])
      | None \<Rightarrow>
          (case ob of
             AlreadyExited rc \<Rightarrow> (Inr (Some rc), [SignalSkipped sig])
           | Delivered \<Rightarrow> (Inr None, [Signal sig])
           | SendRaises m \<Rightarrow> (Inl (OSError m), [SignalFailed sig])))"

definition exits_within :: "real \<Rightarrow> kill_obs \<Rightarrow> bool" where
  "exits_within timeout ko =
     (case ko_exit_delay ko of None \<Rightarrow> False | Some d \<Rightarrow> d \<le> timeout)"

text \<open>
  \<^verbatim>\<open>_kill\<close>. An \<^verbatim>\<open>OSError\<close> of \<^verbatim>\<open>terminate()\<close> is caught and answered with
  \<^verbatim>\<open>kill()\<close>; a timeout of \<^verbatim>\<open>communicate\<close> is caught and answered with
  \<^verbatim>\<open>kill()\<close>; an exception of either \<^verbatim>\<open>kill()\<close> or of \<^verbatim>\<open>outs.decode\<close>
  leaves the method. The result is the exception, if any, and the trace.
\<close>

definition kill :: "'s Subprocess \<Rightarrow> kill_obs \<Rightarrow> (exn + unit) \<times> event list" where
  "kill self ko =
     (if ko_poll ko \<noteq> None then (Inr (), [Poll])
      else
        (case (case send_signal SIGTERM None (ko_terminate ko) of
                 (Inl e, ev) \<Rightarrow>
                   (case send_signal SIGKILL None (ko_kill_after_failure ko) of
                      (r, ev') \<Rightarrow> (r, ev @ [ModuleLog SigtermSendFailed] @ ev'))
               | (Inr rc, ev) \<Rightarrow> (Inr rc, ev)) of
           (Inl e, ev) \<Rightarrow> (Inl e, [Poll, ModuleLog Killing] @ ev)
         | (Inr rc, ev) \<Rightarrow>
             (let patience = sigterm_patience_interval self;
                  ev1 = [Poll, ModuleLog Killing] @ ev @ [Communicate (Some patience)]
              in if exits_within patience ko then
                   (let returncode = (case rc of None \<Rightarrow> ko_returncode ko | Some r \<Rightarrow> r)
                    in if ko_outs ko \<noteq> [] then
                         (case decode (ko_outs ko) of
                            Inl e \<Rightarrow> (Inl e, ev1)
                          | Inr text \<Rightarrow>
                              (Inr (), ev1 @ [ProcessLog text, ModuleLog (Killed (Some returncode))]))
                       else (Inr (), ev1 @ [ModuleLog (Killed (Some returncode))]))
                 else
                   (case send_signal SIGKILL rc (ko_kill_after_timeout ko) of
                      (Inl e, ev2) \<Rightarrow>
                        (Inl e, ev1 @ [ModuleLog (SigtermTimeout patience)] @ ev2)
                    | (Inr rc', ev2) \<Rightarrow>
                        (Inr (), ev1 @ [ModuleLog (SigtermTimeout patience)] @ ev2 @
                                 [ModuleLog (Killed rc')])))))"

section \<open>The throttle and the condition gate\<close>

text \<open>
  \<^verbatim>\<open>throttle(seconds)\<close> wraps a function. \<open>last_called\<close> is the cell of the
  decorator's closure: it is created once, when the decorator is applied, so the wrapper
  takes it and returns it. A throttled call returns \<^verbatim>\<open>None\<close> and runs nothing.
\<close>

definition throttle :: "real \<Rightarrow> ('a \<Rightarrow> 'b) \<Rightarrow> real \<Rightarrow> real \<Rightarrow> 'a \<Rightarrow> 'b option \<times> real" where
  "throttle seconds func last_called current_time arg =
     (let elapsed = current_time - last_called in
      if elapsed < seconds then (None, last_called)
      else (Some (func arg), current_time))"

text \<open>The comprehension \<^verbatim>\<open>[c.check(status) for c in self.conditions]\<close>, from index \<open>i\<close>.\<close>

fun check_all ::
  "ProcessStatus \<Rightarrow> nat \<Rightarrow> 's ProcessCondition list \<Rightarrow>
   ProcessConditionResponse list \<times> 's ProcessCondition list \<times> event list" where
  "check_all st i [] = ([], [], [])"
| "check_all st i (c # cs) =
     (case cond_check c (cond_state c) st of (r, s') \<Rightarrow>
      (case check_all st (Suc i) cs of (rs, cs', ev) \<Rightarrow>
        (r # rs, c\<lparr>cond_state := s'\<rparr> # cs', Check i # ev)))"

text \<open>The undecorated body of \<^verbatim>\<open>_check_process_conditions\<close>.\<close>

definition check_process_conditions_body ::
  "'s Subprocess \<Rightarrow> (exn + ProcessConditionResponse list) \<times> 's Subprocess \<times> event list" where
  "check_process_conditions_body self =
     (case process_status self of
        None \<Rightarrow> (Inl (AttributeError ''process_status''), self, [])
      | Some st \<Rightarrow>
         (case check_all st 0 (conditions self) of (checked_conditions, cs, ev) \<Rightarrow>
           (Inr (filter (\<lambda>c. \<not> successful c) checked_conditions),
            self\<lparr>conditions := cs\<rparr>, ev)))"

text \<open>
  \<^verbatim>\<open>@throttle(60) def _check_process_conditions(self)\<close>: the method every instance
  shares, hence one \<open>last_called\<close> for all of them. The result is \<open>None\<close> when
  throttled, else the failed responses.
\<close>

definition check_process_conditions ::
  "real \<Rightarrow> real \<Rightarrow> 's Subprocess \<Rightarrow>
   (exn + ProcessConditionResponse list option) \<times> 's Subprocess \<times> real \<times> event list" where
  "check_process_conditions last_called current_time self =
     (case throttle 60 check_process_conditions_body last_called current_time self of
        (None, lc) \<Rightarrow> (Inr None, self, lc, [])
      | (Some (Inl e, self', ev), lc) \<Rightarrow> (Inl e, self', lc, ev)
      | (Some (Inr failed, self', ev), lc) \<Rightarrow> (Inr (Some failed), self', lc, ev))"

section \<open>One iteration of the execution loop\<close>

definition capture_output_line_from_process ::
  "step_obs \<Rightarrow> (exn + ProcessStatus) \<times> event list" where
  "capture_output_line_from_process ob =
     (case (if so_stdout_open ob then (so_readline ob, [Readline]) else (Inr [], [])) of
        (Inl e, ev) \<Rightarrow> (Inl e, ev)
      | (Inr line, ev) \<Rightarrow>
         (let process_finished = (so_poll ob \<noteq> None) in
          if line = [] \<and> process_finished then (Inr FINISHED_WITH_NO_MORE_LOGS, ev @ [Poll])
          else if line \<noteq> [] then
            (case decode line of
               Inl e \<Rightarrow> (Inl e, ev @ [Poll])
             | Inr text \<Rightarrow>
                 (Inr (if process_finished then FINISHED_WITH_LOG_READ
                       else RUNNING_WITH_LOG_READ),
                  ev @ [Poll, ProcessLog text]))
          else (Inr RUNNING_WITH_NO_LOG_READ, ev @ [Poll])))"

text \<open>
  \<^verbatim>\<open>execution_loop_iter\<close>. The result is the raised exception or the returned
  boolean, the object after the call, the throttle's cell and the trace of the call.
\<close>

definition execution_loop_iter ::
  "real \<Rightarrow> 's Subprocess \<Rightarrow> step_obs \<Rightarrow> (exn + bool) \<times> 's Subprocess \<times> real \<times> event list" where
  "execution_loop_iter last_called self ob =
     (case process self of
        None \<Rightarrow> (Inl (RuntimeError ''Process is not started''), self, last_called, [])
      | Some p \<Rightarrow>
         (case process_status self of
            None \<Rightarrow> (Inl (AttributeError ''process_status''), self, last_called, [])
          | Some st \<Rightarrow>
             if st = FINISHED_WITH_NO_MORE_LOGS then (Inr False, self, last_called, [])
             else
               (case capture_output_line_from_process ob of
                  (Inl e, ev1) \<Rightarrow> (Inl e, self, last_called, ev1)
                | (Inr st', ev1) \<Rightarrow>
                   (case check_process_conditions last_called (so_time ob)
                           (self\<lparr>process_status := Some st'\<rparr>) of
                      (Inl e, self', lc, ev2) \<Rightarrow> (Inl e, self', lc, ev1 @ ev2)
                    | (Inr (Some (f # fs)), self', lc, ev2) \<Rightarrow>
                        (case kill self' (so_kill ob) of
                           (Inl e, ev3) \<Rightarrow>
                             (Inl e, self', lc,
                              ev1 @ ev2 @ [ModuleLog (StoppedDueTo (map message (f # fs)))] @ ev3)
                         | (Inr u, ev3) \<Rightarrow>
                             (Inr False,
                              self'\<lparr>process_status := Some FINISHED_WITH_NO_MORE_LOGS\<rparr>,
                              lc,
                              ev1 @ ev2 @ [ModuleLog (StoppedDueTo (map message (f # fs)))] @ ev3))
                    | (Inr _, self', lc, ev2) \<Rightarrow>
                        (Inr (st' \<noteq> FINISHED_WITH_NO_MORE_LOGS), self', lc, ev1 @ ev2)))))"

section \<open>Start, the execution loop, stop and close\<close>

definition start_process ::
  "'s Subprocess \<Rightarrow> start_obs \<Rightarrow> (exn + nat) \<times> 's Subprocess \<times> event list" where
  "start_process self so =
     (let self' = self\<lparr>start_time := Some (st_time so)\<rparr> in
      case st_spawn so of
        Inl e \<Rightarrow> (Inl e, self', [ModuleLog Starting, Spawn (cmd self)])
      | Inr pid \<Rightarrow> (Inr pid, self', [ModuleLog Starting, Spawn (cmd self), ModuleLog (Started pid)]))"

text \<open>
  The loop \<^verbatim>\<open>while self.execution_loop_iter(): ...\<close> of \<^verbatim>\<open>start\<close>. It may run
  forever; each iteration consumes one observation and the result is \<open>None\<close> when the
  observations run out before the loop has ended.
\<close>

fun execution_loop ::
  "real \<Rightarrow> 's Subprocess \<Rightarrow> step_obs list \<Rightarrow>
   ((exn + unit) \<times> 's Subprocess \<times> real \<times> event list) option" where
  "execution_loop last_called self [] = None"
| "execution_loop last_called self (ob # obs) =
     (case execution_loop_iter last_called self ob of
        (Inl e, self', lc, ev) \<Rightarrow> Some (Inl e, self', lc, ev)
      | (Inr False, self', lc, ev) \<Rightarrow> Some (Inr (), self', lc, ev)
      | (Inr True, self', lc, ev) \<Rightarrow>
          (case execution_loop lc self' obs of
             None \<Rightarrow> None
           | Some (r, self'', lc', ev') \<Rightarrow>
               Some (r, self'', lc',
                     ev @ (if process_status self' = Some RUNNING_WITH_NO_LOG_READ
                           then [Sleep] else []) @ ev')))"

text \<open>
  \<^verbatim>\<open>start\<close>: the conditions are prepared, then everything else runs inside
  \<^verbatim>\<open>try ... except Exception\<close>, which logs and returns. \<open>None\<close>: the automatic loop
  has not returned.
\<close>

definition start ::
  "real \<Rightarrow> 's Subprocess \<Rightarrow> start_obs \<Rightarrow> bool \<Rightarrow> step_obs list \<Rightarrow>
   ('s Subprocess \<times> real \<times> event list) option" where
  "start last_called self so auto_enter_execution_loop obs =
     (let prep = map Prepare [0..<length (conditions self)] in
      case start_process self so of
        (Inl e, self1, ev) \<Rightarrow> Some (self1, last_called, prep @ ev @ [ModuleLog (StartFailed e)])
      | (Inr pid, self1, ev) \<Rightarrow>
          (let self2 = self1\<lparr>process := Some pid,
                              process_status := Some RUNNING_WITH_NO_LOG_READ\<rparr>;
               ev2 = prep @ ev @ [AtexitRegister]
           in if auto_enter_execution_loop then
                (case execution_loop last_called self2 obs of
                   None \<Rightarrow> None
                 | Some (Inl e, self3, lc, ev3) \<Rightarrow>
                     Some (self3, lc, ev2 @ ev3 @ [ModuleLog (StartFailed e)])
                 | Some (Inr u, self3, lc, ev3) \<Rightarrow> Some (self3, lc, ev2 @ ev3))
              else Some (self2, last_called, ev2)))"

text \<open>
  \<^verbatim>\<open>stop\<close> and \<^verbatim>\<open>close\<close>. An exception of \<^verbatim>\<open>_kill\<close> leaves them at once: the
  handle is not cleared and the conditions are not closed.
\<close>

definition stop ::
  "'s Subprocess \<Rightarrow> kill_obs \<Rightarrow> (exn + unit) \<times> 's Subprocess \<times> event list" where
  "stop self ko =
     (case process self of
        None \<Rightarrow> (Inr (), self, [])
      | Some p \<Rightarrow>
          (case kill self ko of
             (Inl e, ev) \<Rightarrow> (Inl e, self, [ModuleLog Stopping] @ ev)
           | (Inr u, ev) \<Rightarrow> (Inr (), self\<lparr>process := None\<rparr>, [ModuleLog Stopping] @ ev)))"

definition close ::
  "'s Subprocess \<Rightarrow> kill_obs \<Rightarrow> (exn + unit) \<times> 's Subprocess \<times> event list" where
  "close self ko =
     (case stop self ko of
        (Inl e, self', ev) \<Rightarrow> (Inl e, self', ev)
      | (Inr u, self', ev) \<Rightarrow>
          (Inr (), self', ev @ map CloseCondition [0..<length (conditions self)]))"

section \<open>Running several subprocesses\<close>

text \<open>
  The objects live in a heap, addressed by a number; the lists of
  \<^verbatim>\<open>run_subprocesses\<close> hold addresses, and \<^verbatim>\<open>in\<close> compares them. The throttle's
  cell is global. Group events name the object they come from.
\<close>

record 's world =
  heap :: "nat \<Rightarrow> 's Subprocess"
  last_called :: real

datatype gevent =
    On nat event
  | EssentialExited "nat list"
  | IdleSleep

text \<open>
  What the system answers during one pass of the \<^verbatim>\<open>while\<close> loop: to the \<open>k\<close>-th
  call of \<^verbatim>\<open>execution_loop_iter\<close> of the pass, and to the \<open>k\<close>-th \<^verbatim>\<open>stop\<close>.
\<close>

record pass_obs =
  po_step :: "nat \<Rightarrow> step_obs"
  po_stop :: "nat \<Rightarrow> kill_obs"

text \<open>\<^verbatim>\<open>for s in subprocesses: s.start(False)\<close>, from position \<open>k\<close>.\<close>

fun start_all ::
  "'s world \<Rightarrow> (nat \<Rightarrow> start_obs) \<Rightarrow> nat \<Rightarrow> nat list \<Rightarrow> ('s world \<times> gevent list) option" where
  "start_all w sobs k [] = Some (w, [])"
| "start_all w sobs k (s # ss) =
     (case start (last_called w) (heap w s) (sobs k) False [] of
        None \<Rightarrow> None
      | Some (self', lc, ev) \<Rightarrow>
          (case start_all (w\<lparr>heap := (heap w)(s := self'), last_called := lc\<rparr>) sobs (Suc k) ss of
             None \<Rightarrow> None
           | Some (w', ev') \<Rightarrow> Some (w', map (On s) ev @ ev')))"

text \<open>
  The \<^verbatim>\<open>for\<close> loop of one pass, from position \<open>k\<close>, with the accumulators
  \<^verbatim>\<open>finished_processes\<close> and \<^verbatim>\<open>read_some_logs\<close>. An exception of
  \<^verbatim>\<open>execution_loop_iter\<close> leaves the loop.
\<close>

fun step_all ::
  "'s world \<Rightarrow> (nat \<Rightarrow> step_obs) \<Rightarrow> nat \<Rightarrow> nat list \<Rightarrow> nat list \<Rightarrow> bool \<Rightarrow>
   (exn + nat list \<times> bool) \<times> 's world \<times> gevent list" where
  "step_all w ob k [] finished_processes read_some_logs =
     (Inr (finished_processes, read_some_logs), w, [])"
| "step_all w ob k (s # ss) finished_processes read_some_logs =
     (case execution_loop_iter (last_called w) (heap w s) (ob k) of
        (Inl e, self', lc, ev) \<Rightarrow>
          (Inl e, w\<lparr>heap := (heap w)(s := self'), last_called := lc\<rparr>, map (On s) ev)
      | (Inr r, self', lc, ev) \<Rightarrow>
          (case step_all (w\<lparr>heap := (heap w)(s := self'), last_called := lc\<rparr>) ob (Suc k) ss
                  (if r then finished_processes else finished_processes @ [s])
                  (read_some_logs \<or>
                   process_status self' = Some FINISHED_WITH_LOG_READ \<or>
                   process_status self' = Some RUNNING_WITH_LOG_READ) of
             (res, w', ev') \<Rightarrow> (res, w', map (On s) ev @ ev')))"

text \<open>
  \<^verbatim>\<open>for s in subprocesses: s.stop()\<close>, from position \<open>k\<close>. An exception of
  \<^verbatim>\<open>stop\<close> leaves the loop.
\<close>

fun stop_all ::
  "'s world \<Rightarrow> (nat \<Rightarrow> kill_obs) \<Rightarrow> nat \<Rightarrow> nat list \<Rightarrow>
   (exn + unit) \<times> 's world \<times> gevent list" where
  "stop_all w kobs k [] = (Inr (), w, [])"
| "stop_all w kobs k (s # ss) =
     (case stop (heap w s) (kobs k) of
        (Inl e, self', ev) \<Rightarrow> (Inl e, w\<lparr>heap := (heap w)(s := self')\<rparr>, map (On s) ev)
      | (Inr u, self', ev) \<Rightarrow>
          (case stop_all (w\<lparr>heap := (heap w)(s := self')\<rparr>) kobs (Suc k) ss of
             (r, w', ev') \<Rightarrow> (r, w', map (On s) ev @ ev')))"

text \<open>
  The \<^verbatim>\<open>while len(subprocesses) > 0\<close> loop. One element of the list of observations
  is consumed by each pass; \<open>None\<close>: the loop has not ended when they run out.
\<close>

fun supervise ::
  "'s world \<Rightarrow> nat list \<Rightarrow> nat list \<Rightarrow> pass_obs list \<Rightarrow>
   ((exn + unit) \<times> 's world \<times> gevent list) option" where
  "supervise w subprocesses essential_subprocesses [] =
     (if subprocesses = [] then Some (Inr (), w, []) else None)"
| "supervise w subprocesses essential_subprocesses (po # pos) =
     (if subprocesses = [] then Some (Inr (), w, [])
      else
        (case step_all w (po_step po) 0 subprocesses [] False of
           (Inl e, w', ev) \<Rightarrow> Some (Inl e, w', ev)
         | (Inr (finished_processes, read_some_logs), w', ev) \<Rightarrow>
             (let remaining = filter (\<lambda>s. s \<notin> set finished_processes) subprocesses;
                  finished_essential_processes =
                    filter (\<lambda>s. s \<in> set essential_subprocesses) finished_processes
              in if finished_essential_processes \<noteq> [] then
                   (case stop_all w' (po_stop po) 0 remaining of
                      (r, w'', ev') \<Rightarrow>
                        Some (r, w'',
                              ev @ [EssentialExited finished_essential_processes] @ ev'))
                 else
                   (case supervise w' remaining essential_subprocesses pos of
                      None \<Rightarrow> None
                    | Some (r, w'', ev') \<Rightarrow>
                        Some (r, w'',
                              ev @ (if \<not> read_some_logs then [IdleSleep] else []) @ ev')))))"

definition run_subprocesses ::
  "'s world \<Rightarrow> nat list \<Rightarrow> nat list \<Rightarrow> (nat \<Rightarrow> start_obs) \<Rightarrow> pass_obs list \<Rightarrow>
   ((exn + unit) \<times> 's world \<times> gevent list) option" where
  "run_subprocesses w subprocesses essential_subprocesses sobs pos =
     (case start_all w sobs 0 subprocesses of
        None \<Rightarrow> None
      | Some (w1, ev) \<Rightarrow>
          (case supervise w1 subprocesses essential_subprocesses pos of
             None \<Rightarrow> None
           | Some (r, w2, ev') \<Rightarrow> Some (r, w2, ev @ ev')))"


section \<open>Callers, and the words of the specification\<close>

text \<open>A caller that calls \<^verbatim>\<open>execution_loop_iter\<close> once per observation, whatever it returns or raises.\<close>

fun steps ::
  "real \<Rightarrow> 's Subprocess \<Rightarrow> step_obs list \<Rightarrow>
   (exn + bool) list \<times> 's Subprocess \<times> real \<times> event list" where
  "steps lc self [] = ([], self, lc, [])"
| "steps lc self (ob # obs) =
     (case execution_loop_iter lc self ob of (r, self', lc', ev) \<Rightarrow>
       (case steps lc' self' obs of (rs, self'', lc'', ev') \<Rightarrow>
          (r # rs, self'', lc'', ev @ ev')))"

text \<open>
  The transition rule in the words of the specification, a function of
  (line read?, child exited?).
\<close>

definition transition_rule :: "bool \<Rightarrow> bool \<Rightarrow> ProcessStatus" where
  "transition_rule line_read exited =
     (if exited \<and> \<not> line_read then FINISHED_WITH_NO_MORE_LOGS
      else if exited \<and> line_read then FINISHED_WITH_LOG_READ
      else if \<not> exited \<and> line_read then RUNNING_WITH_LOG_READ
      else RUNNING_WITH_NO_LOG_READ)"

text \<open>
  The line an iteration reads, if it reads one, is well-formed UTF-8: then decoding it
  does not raise.
\<close>

definition decodes :: "step_obs \<Rightarrow> string \<Rightarrow> bool" where
  "decodes ob line =
     (if so_stdout_open ob \<and> line \<noteq> [] then valid_utf8 (map of_char line) else True)"

text \<open>
  A caller that applies the four public operations in any order and goes on after an
  exception. The state is the throttle's cell and the object; \<open>None\<close>: a
  \<^verbatim>\<open>start\<close> has not returned.
\<close>

datatype op =
    Start start_obs bool "step_obs list"
  | Step step_obs
  | Stop kill_obs
  | Close kill_obs

fun apply_op :: "real \<times> 's Subprocess \<Rightarrow> op \<Rightarrow> (real \<times> 's Subprocess) option" where
  "apply_op (lc, self) (Start so auto obs) =
     (case start lc self so auto obs of
        None \<Rightarrow> None
      | Some (self', lc', ev) \<Rightarrow> Some (lc', self'))"
| "apply_op (lc, self) (Step ob) =
     (case execution_loop_iter lc self ob of (r, self', lc', ev) \<Rightarrow> Some (lc', self'))"
| "apply_op (lc, self) (Stop ko) =
     (case stop self ko of (r, self', ev) \<Rightarrow> Some (lc, self'))"
| "apply_op (lc, self) (Close ko) =
     (case close self ko of (r, self', ev) \<Rightarrow> Some (lc, self'))"

fun apply_ops :: "real \<times> 's Subprocess \<Rightarrow> op list \<Rightarrow> (real \<times> 's Subprocess) option" where
  "apply_ops s [] = Some s"
| "apply_ops s (x # xs) =
     (case apply_op s x of None \<Rightarrow> None | Some s' \<Rightarrow> apply_ops s' xs)"

text \<open>
  "Started and not yet closed", read off the history of operations alone: a start whose
  spawn succeeds makes it true, a stop or a close that returns makes it false, nothing
  else changes it. Whether a stop of a started supervisor returns is decided by the kill
  protocol, which takes nothing from the object but its patience interval; \<open>self0\<close> is
  the object as constructed.
\<close>

definition kill_returns :: "'s Subprocess \<Rightarrow> kill_obs \<Rightarrow> bool" where
  "kill_returns self ko = (fst (kill self ko) = Inr ())"

fun started_not_closed :: "'s Subprocess \<Rightarrow> bool \<Rightarrow> op list \<Rightarrow> bool" where
  "started_not_closed self0 b [] = b"
| "started_not_closed self0 b (Start so auto obs # xs) =
     started_not_closed self0 (case st_spawn so of Inl e \<Rightarrow> b | Inr pid \<Rightarrow> True) xs"
| "started_not_closed self0 b (Step ob # xs) = started_not_closed self0 b xs"
| "started_not_closed self0 b (Stop ko # xs) =
     started_not_closed self0 (b \<and> \<not> kill_returns self0 ko) xs"
| "started_not_closed self0 b (Close ko # xs) =
     started_not_closed self0 (b \<and> \<not> kill_returns self0 ko) xs"

fun enters_loop :: "op \<Rightarrow> bool" where
  "enters_loop (Start so auto obs) = auto"
| "enters_loop x = False"

fun is_Start :: "op \<Rightarrow> bool" where
  "is_Start (Start so auto obs) = True"
| "is_Start x = False"

section \<open>Concrete children, conditions and supervisors\<close>

text \<open>
  A child that exits two seconds after \<^verbatim>\<open>SIGTERM\<close>; one that ignores it; one to which
  \<^verbatim>\<open>SIGTERM\<close> cannot be sent and which does not exit; one that has exited before the
  protocol starts; one that ignores \<^verbatim>\<open>SIGTERM\<close> through the whole interval and has
  exited, with code 3, by the time \<^verbatim>\<open>kill()\<close> polls; one that exits on \<^verbatim>\<open>SIGTERM\<close>
  leaving output that is not UTF-8.
\<close>

definition graceful :: kill_obs where
  "graceful = \<lparr>ko_poll = None, ko_terminate = Delivered, ko_kill_after_failure = Delivered,
               ko_exit_delay = Some 2, ko_returncode = - 15, ko_outs = ''bye'',
               ko_kill_after_timeout = Delivered\<rparr>"



definition gone :: kill_obs where
  "gone = \<lparr>ko_poll = Some 0, ko_terminate = AlreadyExited 0,
           ko_kill_after_failure = AlreadyExited 0,
           ko_exit_delay = Some 0, ko_returncode = 0, ko_outs = [],
           ko_kill_after_timeout = AlreadyExited 0\<rparr>"


definition garbled :: kill_obs where
  "garbled = \<lparr>ko_poll = None, ko_terminate = Delivered, ko_kill_after_failure = Delivered,
              ko_exit_delay = Some 2, ko_returncode = - 15, ko_outs = [CHR 0xFF, CHR 0x0A],
              ko_kill_after_timeout = Delivered\<rparr>"

text \<open>An observation at time \<open>t\<close>: the line read (empty: none) and the result of the poll.\<close>

definition seen :: "real \<Rightarrow> string \<Rightarrow> int option \<Rightarrow> step_obs" where
  "seen t line rc =
     \<lparr>so_stdout_open = True, so_readline = Inr line, so_poll = rc, so_time = t,
      so_kill = graceful\<rparr>"

definition broken_pipe :: "real \<Rightarrow> step_obs" where
  "broken_pipe t =
     \<lparr>so_stdout_open = True, so_readline = Inl (OSError ''read failed''), so_poll = None,
      so_time = t, so_kill = graceful\<rparr>"

text \<open>A line of two bytes, FF and a newline, which is not UTF-8.\<close>

definition bad_line :: string where
  "bad_line = [CHR 0xFF, CHR 0x0A]"

text \<open>A condition that counts its checks and fails on the \<open>n\<close>-th; one that never fails.\<close>

definition fails_on_check :: "nat \<Rightarrow> nat ProcessCondition" where
  "fails_on_check n =
     \<lparr>cond_state = 0,
      cond_check = (\<lambda>k st. (\<lparr>successful = (Suc k \<noteq> n), message = ''unhealthy''\<rparr>, Suc k))\<rparr>"

definition healthy :: "nat ProcessCondition" where
  "healthy =
     \<lparr>cond_state = 0,
      cond_check = (\<lambda>k st. (\<lparr>successful = True, message = []\<rparr>, Suc k))\<rparr>"

definition worker :: "nat ProcessCondition list \<Rightarrow> nat Subprocess" where
  "worker conds = init_Subprocess [''airflow'', ''worker''] None conds
                    SIGTERM_DEFAULT_PATIENCE_INTERVAL"

text \<open>The same supervisor once \<^verbatim>\<open>start(False)\<close> has spawned the child \<open>pid\<close> at time 1000.\<close>

definition running :: "nat \<Rightarrow> nat ProcessCondition list \<Rightarrow> nat Subprocess" where
  "running pid conds =
     (worker conds)\<lparr>start_time := Some 1000, process := Some pid,
                    process_status := Some RUNNING_WITH_NO_LOG_READ\<rparr>"

definition spawned :: "nat \<Rightarrow> start_obs" where
  "spawned pid = \<lparr>st_time = 1000, st_spawn = Inr pid\<rparr>"

definition spawn_fails :: start_obs where
  "spawn_fails = \<lparr>st_time = 1000, st_spawn = Inl (OSError ''No such file or directory'')\<rparr>"

text \<open>
  A group: every address holds a constructed supervisor with the same conditions, and the
  throttle has never fired. A pass at time \<open>t\<close> in which no child writes or exits; one in
  which the first child stepped has exited with nothing left to read.
\<close>

definition fleet :: "nat ProcessCondition list \<Rightarrow> nat world" where
  "fleet conds = \<lparr>heap = (\<lambda>i. worker conds), last_called = 0\<rparr>"

definition quiet_pass :: "real \<Rightarrow> pass_obs" where
  "quiet_pass t = \<lparr>po_step = (\<lambda>k. seen t [] None), po_stop = (\<lambda>k. graceful)\<rparr>"

definition first_exits_pass :: "real \<Rightarrow> pass_obs" where
  "first_exits_pass t =
     \<lparr>po_step = (\<lambda>k. if k = 0 then seen t [] (Some 0) else seen t [] None),
      po_stop = (\<lambda>k. graceful)\<rparr>"

text \<open>Spawns that all succeed, with pids from 100; and the same with one failure, at position \<open>j\<close>.\<close>

definition all_spawn :: "nat \<Rightarrow> start_obs" where
  "all_spawn k = spawned (100 + k)"

definition spawn_fails_at :: "nat \<Rightarrow> nat \<Rightarrow> start_obs" where
  "spawn_fails_at j k = (if k = j then spawn_fails else spawned (100 + k))"

text \<open>The group once \<^verbatim>\<open>start(False)\<close> has spawned every child, at time 1000.\<close>

definition started_fleet :: "nat ProcessCondition list \<Rightarrow> nat world" where
  "started_fleet conds = \<lparr>heap = (\<lambda>i. running (100 + i) conds), last_called = 0\<rparr>"

section \<open>Basic facts about the gate and one iteration\<close>

lemma check_all_events:
  "check_all st i cs = (rs, cs', ev) \<Longrightarrow> ev = map Check [i..<i + length cs]"
proof (induction cs arbitrary: i rs cs' ev)
  case Nil
  then show ?case by simp
next
  case (Cons c cs)
  obtain r s' where c: "cond_check c (cond_state c) st = (r, s')"
    by (cases "cond_check c (cond_state c) st")
  obtain rs0 cs0 ev0 where rest: "check_all st (Suc i) cs = (rs0, cs0, ev0)"
    by (cases "check_all st (Suc i) cs") auto
  from Cons.IH[OF rest] have "ev0 = map Check [Suc i..<Suc i + length cs]" .
  with Cons.prems c rest show ?case by (simp add: upt_conv_Cons del: upt_Suc)
qed

lemma check_all_lengths:
  "check_all st i cs = (rs, cs', ev) \<Longrightarrow> length rs = length cs \<and> length cs' = length cs"
  by (induction cs arbitrary: i rs cs' ev) (auto split: prod.splits)

lemma gate_throttled:
  "t - lc < 60 \<Longrightarrow> check_process_conditions lc t self = (Inr None, self, lc, [])"
  by (simp add: check_process_conditions_def throttle_def)

lemma gate_evaluated:
  assumes "\<not> t - lc < 60" and "process_status self = Some st"
    and "check_all st 0 (conditions self) = (rs, cs, ev)"
  shows "check_process_conditions lc t self =
           (Inr (Some (filter (\<lambda>c. \<not> successful c) rs)), self\<lparr>conditions := cs\<rparr>, t, ev)"
  using assms
  by (simp add: check_process_conditions_def throttle_def check_process_conditions_body_def)

lemma kill_patience:
  assumes "sigterm_patience_interval a = sigterm_patience_interval b"
  shows "kill a ko = kill b ko"
  unfolding kill_def assms by (rule refl)

lemma step_not_started:
  "process self = None \<Longrightarrow>
   execution_loop_iter lc self ob = (Inl (RuntimeError ''Process is not started''), self, lc, [])"
  by (simp add: execution_loop_iter_def)

lemma step_no_status:
  assumes "process self = Some p" and "process_status self = None"
  shows "execution_loop_iter lc self ob = (Inl (AttributeError ''process_status''), self, lc, [])"
  using assms by (simp add: execution_loop_iter_def)

lemma step_finished:
  "process self = Some p \<Longrightarrow> process_status self = Some FINISHED_WITH_NO_MORE_LOGS \<Longrightarrow>
   execution_loop_iter lc self ob = (Inr False, self, lc, [])"
  by (simp add: execution_loop_iter_def)

lemma step_raises:
  assumes "process self = Some p" and "process_status self = Some st"
    and "st \<noteq> FINISHED_WITH_NO_MORE_LOGS"
    and "capture_output_line_from_process ob = (Inl e, ev1)"
  shows "execution_loop_iter lc self ob = (Inl e, self, lc, ev1)"
  using assms by (simp add: execution_loop_iter_def)

text \<open>What an iteration does when it gets as far as reading the child's output.\<close>

lemma step_running:
  assumes "process self = Some p" and "process_status self = Some st"
    and "st \<noteq> FINISHED_WITH_NO_MORE_LOGS"
    and "capture_output_line_from_process ob = (Inr st', ev1)"
  shows "execution_loop_iter lc self ob =
     (if so_time ob - lc < 60
      then (Inr (st' \<noteq> FINISHED_WITH_NO_MORE_LOGS), self\<lparr>process_status := Some st'\<rparr>, lc, ev1)
      else
        (case check_all st' 0 (conditions self) of (rs, cs, ev2) \<Rightarrow>
          (let failed = filter (\<lambda>c. \<not> successful c) rs;
               self' = self\<lparr>process_status := Some st', conditions := cs\<rparr>
           in if failed = []
              then (Inr (st' \<noteq> FINISHED_WITH_NO_MORE_LOGS), self', so_time ob, ev1 @ ev2)
              else
                (case kill self (so_kill ob) of
                   (Inl e, ev3) \<Rightarrow>
                     (Inl e, self', so_time ob,
                      ev1 @ ev2 @ [ModuleLog (StoppedDueTo (map message failed))] @ ev3)
                 | (Inr u, ev3) \<Rightarrow>
                     (Inr False, self'\<lparr>process_status := Some FINISHED_WITH_NO_MORE_LOGS\<rparr>,
                      so_time ob,
                      ev1 @ ev2 @ [ModuleLog (StoppedDueTo (map message failed))] @ ev3)))))"
proof (cases "so_time ob - lc < 60")
  case True
  then show ?thesis
    using assms by (simp add: execution_loop_iter_def gate_throttled)
next
  case False
  obtain rs cs ev2 where ca: "check_all st' 0 (conditions self) = (rs, cs, ev2)"
    by (cases "check_all st' 0 (conditions self)") auto
  let ?self1 = "self\<lparr>process_status := Some st'\<rparr>"
  have g: "check_process_conditions lc (so_time ob) ?self1 =
      (Inr (Some (filter (\<lambda>c. \<not> successful c) rs)), ?self1\<lparr>conditions := cs\<rparr>, so_time ob, ev2)"
    by (rule gate_evaluated[OF False, of _ st']) (simp_all add: ca)
  have k: "kill (?self1\<lparr>conditions := cs\<rparr>) (so_kill ob) = kill self (so_kill ob)"
    by (rule kill_patience) simp
  show ?thesis
    using assms False ca
    by (cases "filter (\<lambda>c. \<not> successful c) rs")
       (simp_all add: execution_loop_iter_def g k Let_def split: prod.splits sum.splits)
qed

lemma step_process:
  assumes "execution_loop_iter lc self ob = (r, self', lc', ev)"
  shows "process self' = process self"
proof (cases "process self")
  case None
  with assms show ?thesis by (simp add: step_not_started)
next
  case (Some p)
  show ?thesis
  proof (cases "process_status self")
    case None
    with Some assms show ?thesis by (simp add: step_no_status)
  next
    case st: (Some st)
    show ?thesis
    proof (cases "st = FINISHED_WITH_NO_MORE_LOGS")
      case True
      with Some st assms show ?thesis by (simp add: step_finished)
    next
      case False
      obtain c ev1 where cap: "capture_output_line_from_process ob = (c, ev1)"
        by (cases "capture_output_line_from_process ob") auto
      show ?thesis
      proof (cases c)
        case (Inl e)
        with Some st False cap assms show ?thesis by (simp add: step_raises)
      next
        case (Inr st')
        with Some st False cap assms show ?thesis
          by (auto simp: step_running Let_def split: if_splits prod.splits sum.splits)
      qed
    qed
  qed
qed

lemma step_absorbing:
  assumes "process_status self = Some FINISHED_WITH_NO_MORE_LOGS"
    and "execution_loop_iter lc self ob = (r, self', lc', ev)"
  shows "self' = self \<and> lc' = lc \<and> ev = []"
  using assms by (cases "process self") (auto simp: step_not_started step_finished)

lemma capture_table:
  "so_readline ob = Inr line \<Longrightarrow> decodes ob line \<Longrightarrow>
   fst (capture_output_line_from_process ob) =
     Inr (transition_rule (so_stdout_open ob \<and> line \<noteq> []) (so_poll ob \<noteq> None))"
  by (auto simp: capture_output_line_from_process_def transition_rule_def decodes_def
        decode_def Let_def)

lemma capture_events:
  "set (snd (capture_output_line_from_process ob)) \<subseteq> {Readline, Poll} \<union> range ProcessLog"
  by (auto simp: capture_output_line_from_process_def Let_def split: sum.splits)

section \<open>The status machine\<close>

lemma steps_append:
  "steps lc self (xs @ ys) =
     (case steps lc self xs of (rs, self', lc', ev) \<Rightarrow>
       (case steps lc' self' ys of (rs', self'', lc'', ev') \<Rightarrow>
          (rs @ rs', self'', lc'', ev @ ev')))"
  by (induction xs arbitrary: lc self) (auto split: prod.splits)

lemma steps_absorbing:
  "process_status self = Some FINISHED_WITH_NO_MORE_LOGS \<Longrightarrow>
   snd (steps lc self obs) = (self, lc, [])"
proof (induction obs)
  case Nil
  then show ?case by simp
next
  case (Cons ob obs)
  obtain r self' lc' ev where s: "execution_loop_iter lc self ob = (r, self', lc', ev)"
    by (cases "execution_loop_iter lc self ob") auto
  from step_absorbing[OF Cons.prems s] have "self' = self" "lc' = lc" "ev = []" by auto
  with s Cons show ?case by (auto split: prod.splits)
qed

lemma step_status_after:
  assumes "process self = Some p" and "process_status self = Some st"
    and "st \<noteq> FINISHED_WITH_NO_MORE_LOGS" and "so_readline ob = Inr line"
    and "decodes ob line"
    and "execution_loop_iter lc self ob = (r, self', lc', ev)"
    and "\<And>ms. ModuleLog (StoppedDueTo ms) \<notin> set ev"
  shows "process_status self' =
           Some (transition_rule (so_stdout_open ob \<and> line \<noteq> []) (so_poll ob \<noteq> None))"
proof -
  define st' where "st' = transition_rule (so_stdout_open ob \<and> line \<noteq> []) (so_poll ob \<noteq> None)"
  obtain ev1 where cap: "capture_output_line_from_process ob = (Inr st', ev1)"
    using capture_table[OF assms(4,5)] unfolding st'_def
    by (cases "capture_output_line_from_process ob") auto
  obtain rs cs ev2 where ca: "check_all st' 0 (conditions self) = (rs, cs, ev2)"
    by (cases "check_all st' 0 (conditions self)") auto
  have "process_status self' = Some st'"
  proof (cases "so_time ob - lc < 60")
    case True
    with assms(6) show ?thesis by (auto simp: step_running[OF assms(1,2,3) cap])
  next
    case False
    show ?thesis
    proof (cases "filter (\<lambda>c. \<not> successful c) rs = []")
      case True
      with False assms(6) ca show ?thesis
        by (auto simp: step_running[OF assms(1,2,3) cap] Let_def)
    next
      case failing: False
      obtain k ev3 where kk: "kill self (so_kill ob) = (k, ev3)"
        by (cases "kill self (so_kill ob)")
      from False failing assms(6) ca kk
      have "ModuleLog (StoppedDueTo (map message (filter (\<lambda>c. \<not> successful c) rs))) \<in> set ev"
        by (cases k) (auto simp: step_running[OF assms(1,2,3) cap] Let_def)
      with assms(7) show ?thesis by blast
    qed
  qed
  then show ?thesis by (simp only: st'_def)
qed

text \<open>
  C1, as the code has it. When the line an iteration reads, if any, is well-formed UTF-8,
  the status returned by \<^verbatim>\<open>_capture_output_line_from_process\<close> is the one the table
  of the specification gives for (line read?, child exited?), and it is the status the
  object holds after the iteration unless the condition gate reported a failure in that
  iteration. Whatever the later observations are, a status that has become
  \<^verbatim>\<open>FINISHED_WITH_NO_MORE_LOGS\<close> stays so.
\<close>

theorem status_transition_table:
  "(so_readline ob = Inr line \<and> decodes ob line \<longrightarrow>
      fst (capture_output_line_from_process ob) =
        Inr (transition_rule (so_stdout_open ob \<and> line \<noteq> []) (so_poll ob \<noteq> None))) \<and>
   transition_rule False True = FINISHED_WITH_NO_MORE_LOGS \<and>
   transition_rule True True = FINISHED_WITH_LOG_READ \<and>
   transition_rule True False = RUNNING_WITH_LOG_READ \<and>
   transition_rule False False = RUNNING_WITH_NO_LOG_READ \<and>
   (process self = Some p \<and> process_status self = Some st \<and>
    st \<noteq> FINISHED_WITH_NO_MORE_LOGS \<and> so_readline ob = Inr line \<and> decodes ob line \<and>
    execution_loop_iter lc self ob = (r, self', lc', ev) \<and>
    (\<forall>ms. ModuleLog (StoppedDueTo ms) \<notin> set ev) \<longrightarrow>
      process_status self' =
        Some (transition_rule (so_stdout_open ob \<and> line \<noteq> []) (so_poll ob \<noteq> None))) \<and>
   (process_status (fst (snd (steps lc0 self0 obs))) = Some FINISHED_WITH_NO_MORE_LOGS \<longrightarrow>
      process_status (fst (snd (steps lc0 self0 (obs @ later)))) =
        Some FINISHED_WITH_NO_MORE_LOGS)"
proof -
  have absorb: "process_status (fst (snd (steps lc0 self0 (obs @ later)))) =
        Some FINISHED_WITH_NO_MORE_LOGS"
    if fin: "process_status (fst (snd (steps lc0 self0 obs))) = Some FINISHED_WITH_NO_MORE_LOGS"
  proof -
    obtain rs s1 lc1 ev1 where a: "steps lc0 self0 obs = (rs, s1, lc1, ev1)"
      by (cases "steps lc0 self0 obs") auto
    with fin have f: "process_status s1 = Some FINISHED_WITH_NO_MORE_LOGS" by simp
    from steps_absorbing[OF f, of lc1 later] have "fst (snd (steps lc1 s1 later)) = s1" by simp
    then have "process_status (fst (snd (steps lc1 s1 later))) = Some FINISHED_WITH_NO_MORE_LOGS"
      using f by simp
    with a show ?thesis by (auto simp: steps_append split: prod.splits)
  qed
  show ?thesis
    using capture_table[of ob line]
      step_status_after[of self p st ob line lc r self' lc' ev] absorb
    by (simp add: transition_rule_def)
qed

theorem status_transition_table_witness:
  "fst (capture_output_line_from_process (seen 1000 ''a'' (Some 0))) = Inr FINISHED_WITH_LOG_READ \<and>
   process_status (fst (snd (execution_loop_iter 0 (running 7 []) (seen 1000 ''a'' None)))) =
     Some RUNNING_WITH_LOG_READ \<and>
   process_status (fst (snd (steps 0 (running 7 [])
       ([seen 1000 [] (Some 0)] @ [seen 1001 ''late'' None, seen 1002 [] None])))) =
     Some FINISHED_WITH_NO_MORE_LOGS"
  using status_transition_table[of "seen 1000 ''a'' (Some 0)" "''a''"
          "running 7 []" 7 RUNNING_WITH_NO_LOG_READ 0
          "fst (execution_loop_iter 0 (running 7 []) (seen 1000 ''a'' None))"
          "fst (snd (execution_loop_iter 0 (running 7 []) (seen 1000 ''a'' None)))"
          "fst (snd (snd (execution_loop_iter 0 (running 7 []) (seen 1000 ''a'' None))))"
          "snd (snd (snd (execution_loop_iter 0 (running 7 []) (seen 1000 ''a'' None))))"
          0 "running 7 []" "[seen 1000 [] (Some 0)]"
          "[seen 1001 ''late'' None, seen 1002 [] None]"]
  by (simp add: seen_def running_def worker_def init_Subprocess_def transition_rule_def
        decodes_def decode_def utf8_tail_def
        execution_loop_iter_def capture_output_line_from_process_def
        check_process_conditions_def throttle_def check_process_conditions_body_def)

text \<open>
  C1 as stated fails for a line that is not UTF-8. The child has exited and the bytes FF
  0A are read: the table gives \<^verbatim>\<open>FINISHED_WITH_LOG_READ\<close>, but decoding the line
  raises before any status is returned, and the iteration raises with it, leaving the
  status as it was.
\<close>

theorem status_transition_table_counterexample:
  "transition_rule True True = FINISHED_WITH_LOG_READ \<and>
   capture_output_line_from_process (seen 1000 bad_line (Some 0)) =
     (Inl UnicodeDecodeError, [Readline, Poll]) \<and>
   execution_loop_iter 0 (running 7 []) (seen 1000 bad_line (Some 0)) =
     (Inl UnicodeDecodeError, running 7 [], 0, [Readline, Poll]) \<and>
   process_status (running 7 []) = Some RUNNING_WITH_NO_LOG_READ"
  by (simp add: seen_def bad_line_def running_def worker_def init_Subprocess_def
        transition_rule_def decode_def utf8_tail_def
        execution_loop_iter_def capture_output_line_from_process_def)

section \<open>What the operations leave of the handle\<close>

lemma step_patience:
  assumes "execution_loop_iter lc self ob = (r, self', lc', ev)"
  shows "sigterm_patience_interval self' = sigterm_patience_interval self"
proof (cases "process self")
  case None
  with assms show ?thesis by (simp add: step_not_started)
next
  case (Some p)
  show ?thesis
  proof (cases "process_status self")
    case None
    with Some assms show ?thesis by (simp add: step_no_status)
  next
    case st: (Some st)
    show ?thesis
    proof (cases "st = FINISHED_WITH_NO_MORE_LOGS")
      case True
      with Some st assms show ?thesis by (simp add: step_finished)
    next
      case False
      obtain c ev1 where cap: "capture_output_line_from_process ob = (c, ev1)"
        by (cases "capture_output_line_from_process ob") auto
      show ?thesis
      proof (cases c)
        case (Inl e)
        with Some st False cap assms show ?thesis by (simp add: step_raises)
      next
        case (Inr st')
        with Some st False cap assms show ?thesis
          by (auto simp: step_running Let_def split: if_splits prod.splits sum.splits)
      qed
    qed
  qed
qed

lemma stop_result:
  "stop self ko =
     (if process self \<noteq> None \<and> \<not> kill_returns self ko
      then (fst (kill self ko), self, ModuleLog Stopping # snd (kill self ko))
      else (Inr (), self\<lparr>process := None\<rparr>,
            if process self = None then [] else ModuleLog Stopping # snd (kill self ko)))"
  by (cases "process self"; cases "kill self ko"; cases "fst (kill self ko)")
     (auto simp: stop_def kill_returns_def)

lemma stop_handle:
  "process (fst (snd (stop self ko))) =
     (if process self \<noteq> None \<and> \<not> kill_returns self ko then process self else None)"
  by (simp add: stop_result)

lemma stop_returns:
  "(fst (stop self ko) = Inr ()) = (process self = None \<or> kill_returns self ko)"
  by (auto simp: stop_result kill_returns_def)

lemma close_stop:
  "fst (close self ko) = fst (stop self ko) \<and>
   fst (snd (close self ko)) = fst (snd (stop self ko))"
  by (cases "stop self ko"; cases "fst (stop self ko)") (auto simp: close_def)

lemma stop_frame:
  "process_status (fst (snd (stop self ko))) = process_status self \<and>
   sigterm_patience_interval (fst (snd (stop self ko))) = sigterm_patience_interval self"
  by (simp add: stop_result)

lemma execution_loop_process:
  "execution_loop lc self obs = Some (r, self', lc', ev) \<Longrightarrow> process self' = process self"
proof (induction obs arbitrary: lc self ev)
  case Nil
  then show ?case by simp
next
  case (Cons ob obs)
  obtain r1 s1 lc1 ev1 where s: "execution_loop_iter lc self ob = (r1, s1, lc1, ev1)"
    by (cases "execution_loop_iter lc self ob") auto
  have p1: "process s1 = process self" by (rule step_process[OF s])
  show ?case
  proof (cases r1)
    case (Inl e)
    with Cons.prems s p1 show ?thesis by auto
  next
    case (Inr b)
    show ?thesis
    proof (cases b)
      case False
      with Inr Cons.prems s p1 show ?thesis by auto
    next
      case True
      with Inr Cons.prems s obtain ev' where
        "execution_loop lc1 s1 obs = Some (r, self', lc', ev')"
        by (auto split: option.splits)
      from Cons.IH[OF this] p1 show ?thesis by simp
    qed
  qed
qed

lemma execution_loop_patience:
  "execution_loop lc self obs = Some (r, self', lc', ev) \<Longrightarrow>
   sigterm_patience_interval self' = sigterm_patience_interval self"
proof (induction obs arbitrary: lc self ev)
  case Nil
  then show ?case by simp
next
  case (Cons ob obs)
  obtain r1 s1 lc1 ev1 where s: "execution_loop_iter lc self ob = (r1, s1, lc1, ev1)"
    by (cases "execution_loop_iter lc self ob") auto
  have p1: "sigterm_patience_interval s1 = sigterm_patience_interval self"
    by (rule step_patience[OF s])
  show ?case
  proof (cases r1)
    case (Inl e)
    with Cons.prems s p1 show ?thesis by auto
  next
    case (Inr b)
    show ?thesis
    proof (cases b)
      case False
      with Inr Cons.prems s p1 show ?thesis by auto
    next
      case True
      with Inr Cons.prems s obtain ev' where
        "execution_loop lc1 s1 obs = Some (r, self', lc', ev')"
        by (auto split: option.splits)
      from Cons.IH[OF this] p1 show ?thesis by simp
    qed
  qed
qed

lemma start_handle:
  assumes "start lc self so auto obs = Some (self', lc', ev)"
  shows "process self' = (case st_spawn so of Inl e \<Rightarrow> process self | Inr pid \<Rightarrow> Some pid)"
proof (cases "st_spawn so")
  case (Inl e)
  with assms show ?thesis by (auto simp: start_def start_process_def Let_def)
next
  case (Inr pid)
  let ?s2 = "self\<lparr>start_time := Some (st_time so), process := Some pid,
                    process_status := Some RUNNING_WITH_NO_LOG_READ\<rparr>"
  show ?thesis
  proof (cases auto)
    case False
    with Inr assms show ?thesis by (auto simp: start_def start_process_def Let_def)
  next
    case True
    with Inr assms obtain r ev3 where
      "execution_loop lc ?s2 obs = Some (r, self', lc', ev3)"
      by (auto simp: start_def start_process_def Let_def split: option.splits sum.splits)
    from execution_loop_process[OF this] Inr show ?thesis by simp
  qed
qed

lemma start_patience:
  assumes "start lc self so auto obs = Some (self', lc', ev)"
  shows "sigterm_patience_interval self' = sigterm_patience_interval self"
proof (cases "st_spawn so")
  case (Inl e)
  with assms show ?thesis by (auto simp: start_def start_process_def Let_def)
next
  case (Inr pid)
  let ?s2 = "self\<lparr>start_time := Some (st_time so), process := Some pid,
                    process_status := Some RUNNING_WITH_NO_LOG_READ\<rparr>"
  show ?thesis
  proof (cases auto)
    case False
    with Inr assms show ?thesis by (auto simp: start_def start_process_def Let_def)
  next
    case True
    with Inr assms obtain r ev3 where
      "execution_loop lc ?s2 obs = Some (r, self', lc', ev3)"
      by (auto simp: start_def start_process_def Let_def split: option.splits sum.splits)
    from execution_loop_patience[OF this] show ?thesis by simp
  qed
qed

lemma start_without_loop:
  "\<exists>self' ev. start lc self so False obs = Some (self', lc, ev)"
  by (cases "st_spawn so") (simp_all add: start_def start_process_def Let_def)

lemma apply_op_handle:
  assumes "apply_op (lc, self) x = Some (lc', self')"
    and "sigterm_patience_interval self = sigterm_patience_interval self0"
  shows "(process self' \<noteq> None) = started_not_closed self0 (process self \<noteq> None) [x] \<and>
         sigterm_patience_interval self' = sigterm_patience_interval self0"
proof (cases x)
  case (Start so auto obs)
  with assms obtain ev where st: "start lc self so auto obs = Some (self', lc', ev)"
    by (auto split: option.splits)
  from start_handle[OF st] start_patience[OF st] assms(2) Start show ?thesis
    by (simp split: sum.splits)
next
  case (Step ob)
  with assms obtain r ev where st: "execution_loop_iter lc self ob = (r, self', lc', ev)"
    by (auto split: prod.splits)
  from step_process[OF st] step_patience[OF st] assms(2) Step show ?thesis by simp
next
  case (Stop ko)
  with assms have s: "self' = fst (snd (stop self ko))" by (auto split: prod.splits)
  have k: "kill_returns self ko = kill_returns self0 ko"
    by (simp add: kill_returns_def kill_patience[OF assms(2)])
  from s k Stop stop_frame[of self ko] assms(2) show ?thesis by (auto simp: stop_handle)
next
  case (Close ko)
  with assms have s: "self' = fst (snd (stop self ko))"
    using close_stop[of self ko] by (auto split: prod.splits)
  have k: "kill_returns self ko = kill_returns self0 ko"
    by (simp add: kill_returns_def kill_patience[OF assms(2)])
  from s k Close stop_frame[of self ko] assms(2) show ?thesis by (auto simp: stop_handle)
qed

lemma started_not_closed_Cons:
  "started_not_closed self0 b (x # xs) =
     started_not_closed self0 (started_not_closed self0 b [x]) xs"
  by (cases x) simp_all

lemma apply_ops_handle:
  "apply_ops (lc, self) xs = Some (lc', self') \<Longrightarrow>
   sigterm_patience_interval self = sigterm_patience_interval self0 \<Longrightarrow>
   (process self' \<noteq> None) = started_not_closed self0 (process self \<noteq> None) xs"
proof (induction xs arbitrary: lc self)
  case Nil
  then show ?case by simp
next
  case (Cons x xs)
  from Cons.prems obtain lc1 s1 where a: "apply_op (lc, self) x = Some (lc1, s1)"
    and b: "apply_ops (lc1, s1) xs = Some (lc', self')"
    by (auto split: option.splits)
  from apply_op_handle[OF a Cons.prems(2)]
  have h: "(process s1 \<noteq> None) = started_not_closed self0 (process self \<noteq> None) [x]"
    and p: "sigterm_patience_interval s1 = sigterm_patience_interval self0" by simp_all
  from Cons.IH[OF b p] h show ?case
    by (simp add: started_not_closed_Cons[of _ _ x xs])
qed

lemma apply_ops_total:
  "\<forall>x \<in> set xs. \<not> enters_loop x \<Longrightarrow> \<exists>s'. apply_ops s xs = Some s'"
proof (induction xs arbitrary: s)
  case Nil
  then show ?case by simp
next
  case (Cons x xs)
  obtain lc self where s: "s = (lc, self)" by (cases s)
  have "\<exists>s1. apply_op (lc, self) x = Some s1"
  proof (cases x)
    case (Start so auto obs)
    with Cons.prems have "\<not> auto" by simp
    with Start start_without_loop[of lc self so obs] show ?thesis by auto
  next
    case (Step ob)
    then show ?thesis by (auto split: prod.splits)
  next
    case (Stop ko)
    then show ?thesis by (auto split: prod.splits)
  next
    case (Close ko)
    then show ?thesis by (auto split: prod.splits)
  qed
  then obtain s1 where a: "apply_op (lc, self) x = Some s1" by blast
  from Cons.prems have "\<forall>x \<in> set xs. \<not> enters_loop x" by simp
  from Cons.IH[OF this, of s1] a s show ?case by simp
qed

lemma never_started:
  "\<forall>x \<in> set xs. \<not> is_Start x \<Longrightarrow> started_not_closed self0 False xs = False"
proof (induction xs)
  case Nil
  then show ?case by simp
next
  case (Cons x xs)
  then show ?case by (cases x) simp_all
qed

section \<open>Calling an iteration without a handle\<close>

text \<open>
  C8. On a supervisor on which \<^verbatim>\<open>start\<close> has never been called (a constructed
  object, after any calls other than \<^verbatim>\<open>start\<close>), an iteration raises
  \<^verbatim>\<open>RuntimeError("Process is not started")\<close> to its caller, and leaves the object and
  the throttle as they were, with no effect on the outside.
\<close>

theorem step_before_start_raises:
  "(\<forall>x \<in> set xs. \<not> is_Start x) \<Longrightarrow>
   apply_ops (lc, init_Subprocess c name conds patience) xs = Some (lc', self) \<Longrightarrow>
   execution_loop_iter lc' self ob =
     (Inl (RuntimeError ''Process is not started''), self, lc', [])"
proof -
  assume ns: "\<forall>x \<in> set xs. \<not> is_Start x"
    and a: "apply_ops (lc, init_Subprocess c name conds patience) xs = Some (lc', self)"
  have "process (init_Subprocess c name conds patience) = None"
    by (simp add: init_Subprocess_def)
  with apply_ops_handle[OF a refl]
    never_started[OF ns, of "init_Subprocess c name conds patience"]
  have "process self = None" by simp
  then show ?thesis by (rule step_not_started)
qed

theorem step_before_start_raises_witness:
  "apply_ops (0, init_Subprocess [''airflow'', ''worker''] None [healthy] 90)
     [Step (seen 999 [] None), Close gone] =
     Some (0, init_Subprocess [''airflow'', ''worker''] None [healthy] 90) \<and>
   execution_loop_iter 0 (init_Subprocess [''airflow'', ''worker''] None [healthy] 90)
     (seen 1000 ''a'' None) =
     (Inl (RuntimeError ''Process is not started''),
      init_Subprocess [''airflow'', ''worker''] None [healthy] 90, 0, [])"
proof -
  have ns: "\<forall>x \<in> set [Step (seen 999 [] None), Close gone]. \<not> is_Start x" by simp
  have run: "apply_ops (0, init_Subprocess [''airflow'', ''worker''] None [healthy] 90)
     [Step (seen 999 [] None), Close gone] =
     Some (0, init_Subprocess [''airflow'', ''worker''] None [healthy] 90)"
    by (simp add: init_Subprocess_def execution_loop_iter_def close_def stop_def)
  from step_before_start_raises[OF ns run] run show ?thesis by simp
qed



section \<open>The handle\<close>

text \<open>
  C9, as the code has it. After every sequence of \<^verbatim>\<open>start\<close>,
  \<^verbatim>\<open>execution_loop_iter\<close>, \<^verbatim>\<open>stop\<close> and \<^verbatim>\<open>close\<close> on a constructed supervisor,
  the handle is there exactly when a start has spawned the child and no stop or close has
  returned since; and every such sequence whose starts do not enter the loop does return.
  A \<^verbatim>\<open>start\<close> whose spawn succeeds leaves the new handle (it returns at once when it
  does not enter the loop), a \<^verbatim>\<open>stop\<close> or \<^verbatim>\<open>close\<close> that returns leaves none, and
  an iteration leaves the handle it found.
\<close>

theorem handle_iff_started_not_closed:
  "(apply_ops (lc, init_Subprocess c name conds patience) xs = Some (lc', self') \<longrightarrow>
      (process self' \<noteq> None) =
        started_not_closed (init_Subprocess c name conds patience) False xs) \<and>
   ((\<forall>x \<in> set xs. \<not> enters_loop x) \<longrightarrow>
      (\<exists>s'. apply_ops (lc, init_Subprocess c name conds patience) xs = Some s')) \<and>
   (st_spawn so = Inr pid \<longrightarrow>
      (\<exists>s1 ev1. start lc self so False obs = Some (s1, lc, ev1) \<and> process s1 = Some pid) \<and>
      (\<forall>s1 lc1 ev1. start lc self so True obs = Some (s1, lc1, ev1) \<longrightarrow>
         process s1 = Some pid)) \<and>
   (fst (stop self ko) = Inr () \<longrightarrow> process (fst (snd (stop self ko))) = None) \<and>
   (fst (close self ko) = Inr () \<longrightarrow> process (fst (snd (close self ko))) = None) \<and>
   process (fst (snd (execution_loop_iter lc self ob))) = process self"
proof -
  have a: "(process self' \<noteq> None) =
        started_not_closed (init_Subprocess c name conds patience) False xs"
    if "apply_ops (lc, init_Subprocess c name conds patience) xs = Some (lc', self')"
    using apply_ops_handle[OF that, of "init_Subprocess c name conds patience"]
    by (simp add: init_Subprocess_def)
  have b1: "\<exists>s1 ev1. start lc self so False obs = Some (s1, lc, ev1) \<and> process s1 = Some pid"
    if sp: "st_spawn so = Inr pid"
  proof -
    from start_without_loop[of lc self so obs] obtain s1 ev1 where
      st: "start lc self so False obs = Some (s1, lc, ev1)" by blast
    from start_handle[OF st] sp have "process s1 = Some pid" by simp
    with st show ?thesis by blast
  qed
  have b2: "process s1 = Some pid"
    if "start lc self so True obs = Some (s1, lc1, ev1)" and "st_spawn so = Inr pid"
    for s1 lc1 ev1
    using start_handle[OF that(1)] that(2) by simp
  have c: "process (fst (snd (execution_loop_iter lc self ob))) = process self"
    by (cases "execution_loop_iter lc self ob") (auto dest: step_process)
  have d: "process (fst (snd (stop self ko))) = None" if "fst (stop self ko) = Inr ()"
    using that by (auto simp: stop_handle stop_returns)
  have e: "process (fst (snd (close self ko))) = None" if "fst (close self ko) = Inr ()"
    using that close_stop[of self ko] by (auto simp: stop_handle stop_returns)
  from a apply_ops_total[of xs "(lc, init_Subprocess c name conds patience)"] b1 b2 c d e
  show ?thesis by blast
qed


lemma apply_ops_append:
  "apply_ops s (xs @ ys) =
     (case apply_ops s xs of None \<Rightarrow> None | Some s' \<Rightarrow> apply_ops s' ys)"
  by (induction xs arbitrary: s) (auto split: option.splits)

text \<open>What the kill protocol does to the concrete children.\<close>

lemma kill_gone: "kill self gone = (Inr (), [Poll])"
  by (simp add: kill_def gone_def)

lemma kill_graceful:
  "2 \<le> sigterm_patience_interval self \<Longrightarrow>
   kill self graceful =
     (Inr (), [Poll, ModuleLog Killing, Signal SIGTERM,
               Communicate (Some (sigterm_patience_interval self)),
               ProcessLog ''bye'', ModuleLog (Killed (Some (- 15)))])"
  by (simp add: kill_def send_signal_def graceful_def exits_within_def decode_def utf8_tail_def
        Let_def)

lemma kill_garbled:
  "2 \<le> sigterm_patience_interval self \<Longrightarrow>
   kill self garbled =
     (Inl UnicodeDecodeError,
      [Poll, ModuleLog Killing, Signal SIGTERM,
       Communicate (Some (sigterm_patience_interval self))])"
  by (simp add: kill_def send_signal_def garbled_def exits_within_def decode_def utf8_tail_def
        bad_line_def Let_def)

theorem handle_iff_started_not_closed_witness:
  "apply_ops (0, init_Subprocess [''airflow'', ''worker''] None [healthy] 90)
     [Start (spawned 7) False [], Step (seen 1000 ''a'' None), Stop garbled, Close graceful] =
     Some (1000, (init_Subprocess [''airflow'', ''worker''] None [healthy] 90)
              \<lparr>conditions := [healthy\<lparr>cond_state := 1\<rparr>], start_time := Some 1000,
               process := None, process_status := Some RUNNING_WITH_LOG_READ\<rparr>) \<and>
   apply_ops (0, init_Subprocess [''airflow'', ''worker''] None [healthy] 90)
     [Start (spawned 7) False [], Step (seen 1000 ''a'' None), Stop garbled] =
     Some (1000, (init_Subprocess [''airflow'', ''worker''] None [healthy] 90)
              \<lparr>conditions := [healthy\<lparr>cond_state := 1\<rparr>], start_time := Some 1000,
               process := Some 7, process_status := Some RUNNING_WITH_LOG_READ\<rparr>) \<and>
   started_not_closed (init_Subprocess [''airflow'', ''worker''] None [healthy] 90) False
     [Start (spawned 7) False [], Step (seen 1000 ''a'' None), Stop garbled] \<and>
   start 0 (worker [healthy]) (spawned 7) False [] =
      Some ((worker [healthy])\<lparr>start_time := Some 1000, process := Some 7,
              process_status := Some RUNNING_WITH_NO_LOG_READ\<rparr>, 0,
            [Prepare 0, ModuleLog Starting, Spawn [''airflow'', ''worker''],
             ModuleLog (Started 7), AtexitRegister]) \<and>
   fst (stop (running 7 []) graceful) = Inr () \<and>
   process (fst (snd (stop (running 7 []) graceful))) = None"
proof -
  let ?i = "init_Subprocess [''airflow'', ''worker''] None [healthy] 90"
  let ?s = "?i\<lparr>conditions := [healthy\<lparr>cond_state := 1\<rparr>], start_time := Some 1000,
               process := Some 7, process_status := Some RUNNING_WITH_LOG_READ\<rparr>"
  have two: "apply_ops (0, ?i) [Start (spawned 7) False [], Step (seen 1000 ''a'' None)] =
               Some (1000, ?s)"
    by (simp add: init_Subprocess_def start_def start_process_def spawned_def seen_def
          execution_loop_iter_def capture_output_line_from_process_def decode_def utf8_tail_def
          check_process_conditions_def throttle_def check_process_conditions_body_def
          healthy_def Let_def)
  have sg: "stop ?s garbled =
      (Inl UnicodeDecodeError, ?s,
       [ModuleLog Stopping, Poll, ModuleLog Killing, Signal SIGTERM, Communicate (Some 90)])"
    by (simp add: stop_result kill_returns_def kill_garbled init_Subprocess_def)
  have three: "apply_ops (0, ?i)
      [Start (spawned 7) False [], Step (seen 1000 ''a'' None), Stop garbled] = Some (1000, ?s)"
    using apply_ops_append[of "(0, ?i)"
            "[Start (spawned 7) False [], Step (seen 1000 ''a'' None)]" "[Stop garbled]"]
      two sg
    by simp
  have cg: "fst (snd (close ?s graceful)) = ?s\<lparr>process := None\<rparr>"
    using close_stop[of ?s graceful]
    by (simp add: stop_result kill_returns_def kill_graceful init_Subprocess_def)
  have four: "apply_ops (0, ?i)
      [Start (spawned 7) False [], Step (seen 1000 ''a'' None), Stop garbled, Close graceful] =
      Some (1000, ?s\<lparr>process := None\<rparr>)"
    using apply_ops_append[of "(0, ?i)"
            "[Start (spawned 7) False [], Step (seen 1000 ''a'' None), Stop garbled]"
            "[Close graceful]"]
      three cg
    by (simp split: prod.splits)
  have st: "start 0 (worker [healthy]) (spawned 7) False [] =
      Some ((worker [healthy])\<lparr>start_time := Some 1000, process := Some 7,
              process_status := Some RUNNING_WITH_NO_LOG_READ\<rparr>, 0,
            [Prepare 0, ModuleLog Starting, Spawn [''airflow'', ''worker''],
             ModuleLog (Started 7), AtexitRegister])"
    by (simp add: start_def start_process_def spawned_def worker_def init_Subprocess_def Let_def)
  have ret: "fst (stop (running 7 ([]::nat ProcessCondition list)) graceful) = Inr ()"
    by (simp add: stop_returns kill_returns_def kill_graceful running_def worker_def
          init_Subprocess_def SIGTERM_DEFAULT_PATIENCE_INTERVAL_def)
  have live: "process ?s \<noteq> None" by simp
  from handle_iff_started_not_closed[where lc = 0 and c = "[''airflow'', ''worker'']"
         and name = None and conds = "[healthy]" and patience = 90
         and xs = "[Start (spawned 7) False [], Step (seen 1000 ''a'' None), Stop garbled]"
         and lc' = 1000 and self' = ?s and self = "running 7 []" and ko = graceful]
       three four st ret live
  show ?thesis by simp
qed

text \<open>
  C9 as stated fails for a stop that does not return. The child exits on \<^verbatim>\<open>SIGTERM\<close>
  and leaves output that is not UTF-8: decoding it raises inside \<^verbatim>\<open>_kill\<close>, the
  exception leaves \<^verbatim>\<open>stop\<close> before the handle is cleared, and the supervisor still
  holds it.
\<close>

theorem handle_counterexample:
  "stop (running 7 []) garbled =
     (Inl UnicodeDecodeError, running 7 [],
      [ModuleLog Stopping, Poll, ModuleLog Killing, Signal SIGTERM, Communicate (Some 90)]) \<and>
   process (running 7 []) = Some 7 \<and>
   fst (close (running 7 []) garbled) = Inl UnicodeDecodeError \<and>
   process (fst (snd (close (running 7 []) garbled))) = Some 7"
  by (simp add: close_def stop_def kill_def send_signal_def garbled_def exits_within_def
        decode_def utf8_tail_def running_def worker_def init_Subprocess_def
        SIGTERM_DEFAULT_PATIENCE_INTERVAL_def Let_def)

section \<open>After the last log line\<close>

text \<open>
  C6, as the code has it. On a supervisor that holds its handle and whose status is
  \<^verbatim>\<open>FINISHED_WITH_NO_MORE_LOGS\<close>, every further iteration returns \<^verbatim>\<open>False\<close> and
  changes nothing: the object and the throttle are as before and the trace is empty, so
  nothing is read, no condition is checked and no signal is sent.
\<close>

theorem finished_steps_are_noops:
  "process self = Some p \<Longrightarrow> process_status self = Some FINISHED_WITH_NO_MORE_LOGS \<Longrightarrow>
   steps lc self obs = (replicate (length obs) (Inr False), self, lc, [])"
proof (induction obs)
  case Nil
  then show ?case by simp
next
  case (Cons ob obs)
  then show ?case by (simp add: step_finished)
qed

theorem finished_steps_are_noops_witness:
  "steps 1000 ((running 7 [fails_on_check 1])\<lparr>process_status := Some FINISHED_WITH_NO_MORE_LOGS\<rparr>)
     [seen 1001 ''a'' None, seen 2000 [] (Some 0)] =
   ([Inr False, Inr False],
    (running 7 [fails_on_check 1])\<lparr>process_status := Some FINISHED_WITH_NO_MORE_LOGS\<rparr>,
    1000, [])"
  using finished_steps_are_noops[of
          "(running 7 [fails_on_check 1])\<lparr>process_status := Some FINISHED_WITH_NO_MORE_LOGS\<rparr>"
          7 1000 "[seen 1001 ''a'' None, seen 2000 [] (Some 0)]"]
  by (simp add: running_def)

text \<open>
  C6 as stated fails: a supervisor that reached \<^verbatim>\<open>FINISHED_WITH_NO_MORE_LOGS\<close> and was
  then stopped still has that status, and its next iteration raises instead of returning
  \<^verbatim>\<open>False\<close>.
\<close>

theorem finished_step_counterexample:
  "process_status (fst (snd (stop (fst (snd (execution_loop_iter 0 (running 7 []) (seen 1000 [] (Some 0))))) gone))) =
     Some FINISHED_WITH_NO_MORE_LOGS \<and>
   fst (execution_loop_iter 1000
          (fst (snd (stop (fst (snd (execution_loop_iter 0 (running 7 []) (seen 1000 [] (Some 0))))) gone)))
          (seen 1001 [] (Some 0))) =
     Inl (RuntimeError ''Process is not started'')"
  by (simp add: running_def worker_def init_Subprocess_def seen_def stop_def kill_def gone_def
        execution_loop_iter_def capture_output_line_from_process_def
        check_process_conditions_def throttle_def check_process_conditions_body_def)


section \<open>The kill protocol\<close>







section \<open>Failing conditions\<close>

text \<open>
  C3, as the code has it. When an iteration evaluates the conditions (it was not
  throttled) and at least one response is unsuccessful, that iteration logs the messages
  of all the unsuccessful responses and runs the kill protocol; when the kill protocol
  returns, the iteration sets the status to \<^verbatim>\<open>FINISHED_WITH_NO_MORE_LOGS\<close> and returns
  \<^verbatim>\<open>False\<close>, and when it raises, the iteration raises with the status not set. For a
  supervisor whose one condition fails on its second check, whatever the throttle's cell
  holds: a throttled iteration checks nothing and kills nothing; the iteration that makes
  the first check leaves the supervisor as the child's output says; the iteration that
  makes the second check kills the child, whatever the child does.
\<close>

theorem failing_condition_kills:
  "(process self = Some p \<and> process_status self = Some st \<and>
    st \<noteq> FINISHED_WITH_NO_MORE_LOGS \<and>
    capture_output_line_from_process ob = (Inr st', ev1) \<and>
    \<not> so_time ob - lc < 60 \<and>
    check_all st' 0 (conditions self) = (rs, cs, ev2) \<and>
    (\<exists>r \<in> set rs. \<not> successful r) \<longrightarrow>
      (\<forall>ev3. kill self (so_kill ob) = (Inr (), ev3) \<longrightarrow>
         execution_loop_iter lc self ob =
           (Inr False,
            self\<lparr>conditions := cs, process_status := Some FINISHED_WITH_NO_MORE_LOGS\<rparr>,
            so_time ob,
            ev1 @ ev2 @
            [ModuleLog (StoppedDueTo (map message (filter (\<lambda>c. \<not> successful c) rs)))] @
            ev3)) \<and>
      (\<forall>e ev3. kill self (so_kill ob) = (Inl e, ev3) \<longrightarrow>
         execution_loop_iter lc self ob =
           (Inl e,
            self\<lparr>conditions := cs, process_status := Some st'\<rparr>,
            so_time ob,
            ev1 @ ev2 @
            [ModuleLog (StoppedDueTo (map message (filter (\<lambda>c. \<not> successful c) rs)))] @
            ev3))) \<and>
   (process self = Some p \<and> process_status self = Some st \<and>
    st \<noteq> FINISHED_WITH_NO_MORE_LOGS \<and>
    capture_output_line_from_process ob = (Inr st', ev1) \<and>
    conditions self = [(fails_on_check 2)\<lparr>cond_state := k\<rparr>] \<longrightarrow>
      (so_time ob - lc < 60 \<longrightarrow>
         execution_loop_iter lc self ob =
           (Inr (st' \<noteq> FINISHED_WITH_NO_MORE_LOGS), self\<lparr>process_status := Some st'\<rparr>,
            lc, ev1)) \<and>
      (\<not> so_time ob - lc < 60 \<and> k = 0 \<longrightarrow>
         execution_loop_iter lc self ob =
           (Inr (st' \<noteq> FINISHED_WITH_NO_MORE_LOGS),
            self\<lparr>conditions := [(fails_on_check 2)\<lparr>cond_state := 1\<rparr>],
                 process_status := Some st'\<rparr>,
            so_time ob, ev1 @ [Check 0])) \<and>
      (\<forall>ev3. \<not> so_time ob - lc < 60 \<and> k = 1 \<and> kill self (so_kill ob) = (Inr (), ev3) \<longrightarrow>
         execution_loop_iter lc self ob =
           (Inr False,
            self\<lparr>conditions := [(fails_on_check 2)\<lparr>cond_state := 2\<rparr>],
                 process_status := Some FINISHED_WITH_NO_MORE_LOGS\<rparr>,
            so_time ob,
            ev1 @ [Check 0, ModuleLog (StoppedDueTo [''unhealthy''])] @ ev3)))"
proof -
  have general: "execution_loop_iter lc self ob =
        (case k0 of
           Inr u \<Rightarrow>
             (Inr False,
              self\<lparr>conditions := cs, process_status := Some FINISHED_WITH_NO_MORE_LOGS\<rparr>,
              so_time ob,
              ev1 @ ev2 @
              [ModuleLog (StoppedDueTo (map message (filter (\<lambda>c. \<not> successful c) rs)))] @
              ev3)
         | Inl e \<Rightarrow>
             (Inl e,
              self\<lparr>conditions := cs, process_status := Some st'\<rparr>,
              so_time ob,
              ev1 @ ev2 @
              [ModuleLog (StoppedDueTo (map message (filter (\<lambda>c. \<not> successful c) rs)))] @
              ev3))"
    if h: "process self = Some p" "process_status self = Some st"
      "st \<noteq> FINISHED_WITH_NO_MORE_LOGS"
      "capture_output_line_from_process ob = (Inr st', ev1)"
      and late: "\<not> so_time ob - lc < 60"
      and ca: "check_all st' 0 (conditions self) = (rs, cs, ev2)"
      and bad: "\<exists>r \<in> set rs. \<not> successful r"
      and kk: "kill self (so_kill ob) = (k0, ev3)"
    for k0 ev3
  proof -
    from bad have "filter (\<lambda>c. \<not> successful c) rs \<noteq> []"
      by (simp add: filter_empty_conv)
    with late ca kk show ?thesis
      by (cases k0) (simp_all add: step_running[OF h] Let_def)
  qed
  have scenario: "(so_time ob - lc < 60 \<longrightarrow>
         execution_loop_iter lc self ob =
           (Inr (st' \<noteq> FINISHED_WITH_NO_MORE_LOGS), self\<lparr>process_status := Some st'\<rparr>,
            lc, ev1)) \<and>
      (\<not> so_time ob - lc < 60 \<and> k = 0 \<longrightarrow>
         execution_loop_iter lc self ob =
           (Inr (st' \<noteq> FINISHED_WITH_NO_MORE_LOGS),
            self\<lparr>conditions := [(fails_on_check 2)\<lparr>cond_state := 1\<rparr>],
                 process_status := Some st'\<rparr>,
            so_time ob, ev1 @ [Check 0])) \<and>
      (\<forall>ev3. \<not> so_time ob - lc < 60 \<and> k = 1 \<and> kill self (so_kill ob) = (Inr (), ev3) \<longrightarrow>
         execution_loop_iter lc self ob =
           (Inr False,
            self\<lparr>conditions := [(fails_on_check 2)\<lparr>cond_state := 2\<rparr>],
                 process_status := Some FINISHED_WITH_NO_MORE_LOGS\<rparr>,
            so_time ob,
            ev1 @ [Check 0, ModuleLog (StoppedDueTo [''unhealthy''])] @ ev3))"
    if h: "process self = Some p" "process_status self = Some st"
      "st \<noteq> FINISHED_WITH_NO_MORE_LOGS"
      "capture_output_line_from_process ob = (Inr st', ev1)"
      and c: "conditions self = [(fails_on_check 2)\<lparr>cond_state := k\<rparr>]"
  proof -
    show ?thesis
      by (auto simp: step_running[OF h] c fails_on_check_def Let_def numeral_2_eq_2)
  qed
  from general[where ?k0.0 = "Inr ()"] general[where ?k0.0 = "Inl e" for e] scenario
  show ?thesis by simp
qed

lemma capture_idle:
  "capture_output_line_from_process (seen t [] None) =
     (Inr RUNNING_WITH_NO_LOG_READ, [Readline, Poll])"
  "capture_output_line_from_process ((seen t [] None)\<lparr>so_kill := ko\<rparr>) =
     (Inr RUNNING_WITH_NO_LOG_READ, [Readline, Poll])"
  by (simp_all add: capture_output_line_from_process_def seen_def)

theorem failing_condition_kills_witness:
  "execution_loop_iter 0 (running 7 [fails_on_check 1]) (seen 1000 [] None) =
     (Inr False,
      (running 7 [fails_on_check 1])
        \<lparr>conditions := [(fails_on_check 1)\<lparr>cond_state := 1\<rparr>],
         process_status := Some FINISHED_WITH_NO_MORE_LOGS\<rparr>,
      1000,
      [Readline, Poll, Check 0, ModuleLog (StoppedDueTo [''unhealthy'']),
       Poll, ModuleLog Killing, Signal SIGTERM, Communicate (Some 90),
       ProcessLog ''bye'', ModuleLog (Killed (Some (- 15)))]) \<and>
   execution_loop_iter 0 (running 7 [fails_on_check 1])
       ((seen 1000 [] None)\<lparr>so_kill := garbled\<rparr>) =
     (Inl UnicodeDecodeError,
      (running 7 [fails_on_check 1])
        \<lparr>conditions := [(fails_on_check 1)\<lparr>cond_state := 1\<rparr>],
         process_status := Some RUNNING_WITH_NO_LOG_READ\<rparr>,
      1000,
      [Readline, Poll, Check 0, ModuleLog (StoppedDueTo [''unhealthy'']),
       Poll, ModuleLog Killing, Signal SIGTERM, Communicate (Some 90)]) \<and>
   execution_loop_iter 950 (running 7 [fails_on_check 2]) (seen 1000 [] None) =
     (Inr True, running 7 [fails_on_check 2], 950, [Readline, Poll]) \<and>
   execution_loop_iter 950 (running 7 [fails_on_check 2]) (seen 1010 [] None) =
     (Inr True,
      (running 7 [fails_on_check 2])\<lparr>conditions := [(fails_on_check 2)\<lparr>cond_state := 1\<rparr>]\<rparr>,
      1010, [Readline, Poll, Check 0]) \<and>
   execution_loop_iter 1010
       ((running 7 [fails_on_check 2])\<lparr>conditions := [(fails_on_check 2)\<lparr>cond_state := 1\<rparr>]\<rparr>)
       (seen 1070 [] None) =
     (Inr False,
      (running 7 [fails_on_check 2])
        \<lparr>conditions := [(fails_on_check 2)\<lparr>cond_state := 2\<rparr>],
         process_status := Some FINISHED_WITH_NO_MORE_LOGS\<rparr>,
      1070,
      [Readline, Poll, Check 0, ModuleLog (StoppedDueTo [''unhealthy'']),
       Poll, ModuleLog Killing, Signal SIGTERM, Communicate (Some 90),
       ProcessLog ''bye'', ModuleLog (Killed (Some (- 15)))])"
proof -
  let ?a = "running 7 [fails_on_check 1]"
  let ?b = "running 7 [fails_on_check 2]"
  let ?b1 = "?b\<lparr>conditions := [(fails_on_check 2)\<lparr>cond_state := 1\<rparr>]\<rparr>"
  let ?bad = "[\<lparr>successful = False, message = ''unhealthy''\<rparr>]"
  have pa: "process ?a = Some 7" "process_status ?a = Some RUNNING_WITH_NO_LOG_READ"
    and pb: "process ?b = Some 7" "process_status ?b = Some RUNNING_WITH_NO_LOG_READ"
    and pb1: "process ?b1 = Some 7" "process_status ?b1 = Some RUNNING_WITH_NO_LOG_READ"
    and ne: "RUNNING_WITH_NO_LOG_READ \<noteq> FINISHED_WITH_NO_MORE_LOGS"
    by (simp_all add: running_def)
  have t: "so_time (seen 1000 [] None) = 1000" "so_time (seen 1010 [] None) = 1010"
    "so_time (seen 1070 [] None) = 1070"
    "so_time ((seen 1000 [] None)\<lparr>so_kill := garbled\<rparr>) = 1000"
    "so_kill (seen 1000 [] None) = graceful" "so_kill (seen 1070 [] None) = graceful"
    "so_kill ((seen 1000 [] None)\<lparr>so_kill := garbled\<rparr>) = garbled"
    by (simp_all add: seen_def)
  have ca: "check_all RUNNING_WITH_NO_LOG_READ 0 (conditions ?a) =
              (?bad, [(fails_on_check 1)\<lparr>cond_state := 1\<rparr>], [Check 0])"
    by (simp add: running_def worker_def init_Subprocess_def fails_on_check_def)
  have bad: "\<exists>r \<in> set ?bad. \<not> successful r" by simp
  have kg: "kill ?a graceful =
      (Inr (), [Poll, ModuleLog Killing, Signal SIGTERM, Communicate (Some 90),
                ProcessLog ''bye'', ModuleLog (Killed (Some (- 15)))])"
    "kill ?b1 graceful =
      (Inr (), [Poll, ModuleLog Killing, Signal SIGTERM, Communicate (Some 90),
                ProcessLog ''bye'', ModuleLog (Killed (Some (- 15)))])"
    "kill ?a garbled =
      (Inl UnicodeDecodeError,
       [Poll, ModuleLog Killing, Signal SIGTERM, Communicate (Some 90)])"
    by (simp_all add: kill_graceful kill_garbled running_def worker_def init_Subprocess_def
          SIGTERM_DEFAULT_PATIENCE_INTERVAL_def)
  have cb: "conditions ?b = [(fails_on_check 2)\<lparr>cond_state := 0\<rparr>]"
    "conditions ?b1 = [(fails_on_check 2)\<lparr>cond_state := 1\<rparr>]"
    by (simp_all add: running_def worker_def init_Subprocess_def fails_on_check_def)
  have one: "execution_loop_iter 0 ?a (seen 1000 [] None) =
     (Inr False,
      ?a\<lparr>conditions := [(fails_on_check 1)\<lparr>cond_state := 1\<rparr>],
         process_status := Some FINISHED_WITH_NO_MORE_LOGS\<rparr>,
      1000,
      [Readline, Poll, Check 0, ModuleLog (StoppedDueTo [''unhealthy'']),
       Poll, ModuleLog Killing, Signal SIGTERM, Communicate (Some 90),
       ProcessLog ''bye'', ModuleLog (Killed (Some (- 15)))])"
    using failing_condition_kills[where self = ?a and p = 7
            and st = RUNNING_WITH_NO_LOG_READ and ob = "seen 1000 [] None"
            and st' = RUNNING_WITH_NO_LOG_READ and ?ev1.0 = "[Readline, Poll]" and lc = 0
            and rs = ?bad and cs = "[(fails_on_check 1)\<lparr>cond_state := 1\<rparr>]"
            and ?ev2.0 = "[Check 0]",
            THEN conjunct1]
      pa ne capture_idle(1)[of 1000] t ca bad kg(1)
    by simp
  have two: "execution_loop_iter 0 ?a ((seen 1000 [] None)\<lparr>so_kill := garbled\<rparr>) =
     (Inl UnicodeDecodeError,
      ?a\<lparr>conditions := [(fails_on_check 1)\<lparr>cond_state := 1\<rparr>],
         process_status := Some RUNNING_WITH_NO_LOG_READ\<rparr>,
      1000,
      [Readline, Poll, Check 0, ModuleLog (StoppedDueTo [''unhealthy'']),
       Poll, ModuleLog Killing, Signal SIGTERM, Communicate (Some 90)])"
    using failing_condition_kills[where self = ?a and p = 7
            and st = RUNNING_WITH_NO_LOG_READ
            and ob = "(seen 1000 [] None)\<lparr>so_kill := garbled\<rparr>"
            and st' = RUNNING_WITH_NO_LOG_READ and ?ev1.0 = "[Readline, Poll]" and lc = 0
            and rs = ?bad and cs = "[(fails_on_check 1)\<lparr>cond_state := 1\<rparr>]"
            and ?ev2.0 = "[Check 0]",
            THEN conjunct1]
      pa ne capture_idle(2)[of garbled 1000] t ca bad kg(3)
    by simp
  have same: "?b\<lparr>process_status := Some RUNNING_WITH_NO_LOG_READ\<rparr> = ?b"
    by (simp add: running_def)
  have three: "execution_loop_iter 950 ?b (seen 1000 [] None) =
     (Inr True, ?b, 950, [Readline, Poll])"
    using failing_condition_kills[where self = ?b and p = 7
            and st = RUNNING_WITH_NO_LOG_READ and ob = "seen 1000 [] None"
            and st' = RUNNING_WITH_NO_LOG_READ and ?ev1.0 = "[Readline, Poll]" and lc = 950
            and k = 0,
            THEN conjunct2]
      pb ne capture_idle(1)[of 1000] t cb(1) same
    by simp
  have four: "execution_loop_iter 950 ?b (seen 1010 [] None) =
     (Inr True, ?b1, 1010, [Readline, Poll, Check 0])"
    using failing_condition_kills[where self = ?b and p = 7
            and st = RUNNING_WITH_NO_LOG_READ and ob = "seen 1010 [] None"
            and st' = RUNNING_WITH_NO_LOG_READ and ?ev1.0 = "[Readline, Poll]" and lc = 950
            and k = 0,
            THEN conjunct2]
      pb ne capture_idle(1)[of 1010] t cb(1)
    by (simp add: running_def)
  have five: "execution_loop_iter 1010 ?b1 (seen 1070 [] None) =
     (Inr False,
      ?b\<lparr>conditions := [(fails_on_check 2)\<lparr>cond_state := 2\<rparr>],
         process_status := Some FINISHED_WITH_NO_MORE_LOGS\<rparr>,
      1070,
      [Readline, Poll, Check 0, ModuleLog (StoppedDueTo [''unhealthy'']),
       Poll, ModuleLog Killing, Signal SIGTERM, Communicate (Some 90),
       ProcessLog ''bye'', ModuleLog (Killed (Some (- 15)))])"
    using failing_condition_kills[where self = ?b1 and p = 7
            and st = RUNNING_WITH_NO_LOG_READ and ob = "seen 1070 [] None"
            and st' = RUNNING_WITH_NO_LOG_READ and ?ev1.0 = "[Readline, Poll]" and lc = 1010
            and k = 1,
            THEN conjunct2]
      pb1 ne capture_idle(1)[of 1070] t cb(2) kg(2)
    by simp
  from one two three four five show ?thesis by (intro conjI)
qed

text \<open>
  C3 as stated fails twice. On its example, the second iteration, one second after the
  first, is throttled: the condition is not checked a second time, no signal is sent, and
  the supervisor goes on running. And when the kill protocol raises (here the child's last
  output is not UTF-8), the iteration raises: it does not return \<^verbatim>\<open>False\<close> and the
  status is not \<^verbatim>\<open>FINISHED_WITH_NO_MORE_LOGS\<close>.
\<close>

theorem second_step_counterexample:
  "execution_loop_iter
     (fst (snd (snd (execution_loop_iter 0 (running 7 [fails_on_check 2]) (seen 1000 [] None)))))
     (fst (snd (execution_loop_iter 0 (running 7 [fails_on_check 2]) (seen 1000 [] None))))
     (seen 1001 [] None) =
   (Inr True,
    (running 7 [fails_on_check 2])\<lparr>conditions := [(fails_on_check 2)\<lparr>cond_state := 1\<rparr>]\<rparr>,
    1000,
    [Readline, Poll]) \<and>
   execution_loop_iter 0 (running 7 [fails_on_check 1])
       ((seen 1000 [] None)\<lparr>so_kill := garbled\<rparr>) =
     (Inl UnicodeDecodeError,
      (running 7 [fails_on_check 1])
        \<lparr>conditions := [(fails_on_check 1)\<lparr>cond_state := 1\<rparr>]\<rparr>,
      1000,
      [Readline, Poll, Check 0, ModuleLog (StoppedDueTo [''unhealthy'']),
       Poll, ModuleLog Killing, Signal SIGTERM, Communicate (Some 90)])"
  by (simp add: running_def worker_def init_Subprocess_def seen_def fails_on_check_def
        SIGTERM_DEFAULT_PATIENCE_INTERVAL_def kill_garbled
        execution_loop_iter_def capture_output_line_from_process_def
        check_process_conditions_def throttle_def check_process_conditions_body_def)

section \<open>The group\<close>

lemma step_all_process:
  "step_all w ob k ss fin rl = (res, w', ev) \<Longrightarrow> process (heap w' x) = process (heap w x)"
proof (induction ss arbitrary: w k fin rl ev)
  case Nil
  then show ?case by simp
next
  case (Cons s ss)
  obtain r1 s1 lc1 ev1 where st: "execution_loop_iter (last_called w) (heap w s) (ob k) = (r1, s1, lc1, ev1)"
    by (cases "execution_loop_iter (last_called w) (heap w s) (ob k)") auto
  have p: "process s1 = process (heap w s)" by (rule step_process[OF st])
  show ?case
  proof (cases r1)
    case (Inl e)
    with Cons.prems st p show ?thesis by auto
  next
    case (Inr b)
    let ?w1 = "w\<lparr>heap := (heap w)(s := s1), last_called := lc1\<rparr>"
    from Inr Cons.prems st obtain fin1 rl1 ev2 where
      rest: "step_all ?w1 ob (Suc k) ss fin1 rl1 = (res, w', ev2)"
      by (auto split: prod.splits)
    from Cons.IH[OF rest] p show ?thesis by simp
  qed
qed

lemma step_all_handles:
  "step_all w ob k ss fin rl = (Inr res, w', ev) \<Longrightarrow> x \<in> set ss \<Longrightarrow>
   process (heap w x) \<noteq> None"
proof (induction ss arbitrary: w k fin rl ev)
  case Nil
  then show ?case by simp
next
  case (Cons s ss)
  obtain r1 s1 lc1 ev1 where st: "execution_loop_iter (last_called w) (heap w s) (ob k) = (r1, s1, lc1, ev1)"
    by (cases "execution_loop_iter (last_called w) (heap w s) (ob k)") auto
  have p: "process s1 = process (heap w s)" by (rule step_process[OF st])
  show ?case
  proof (cases r1)
    case (Inl e)
    with Cons.prems st show ?thesis by auto
  next
    case (Inr b)
    let ?w1 = "w\<lparr>heap := (heap w)(s := s1), last_called := lc1\<rparr>"
    from Inr Cons.prems st obtain fin1 rl1 ev2 where
      rest: "step_all ?w1 ob (Suc k) ss fin1 rl1 = (Inr res, w', ev2)"
      by (auto split: prod.splits)
    have head: "process (heap w s) \<noteq> None"
    proof
      assume "process (heap w s) = None"
      from step_not_started[OF this, of "last_called w" "ob k"] st Inr show False by simp
    qed
    show ?thesis
    proof (cases "x = s")
      case True
      with head show ?thesis by simp
    next
      case False
      with Cons.prems have "x \<in> set ss" by simp
      from Cons.IH[OF rest this] False show ?thesis by simp
    qed
  qed
qed

lemma step_false_iff_finished:
  assumes "execution_loop_iter lc self ob = (Inr b, self', lc', ev)"
  shows "(\<not> b) = (process_status self' = Some FINISHED_WITH_NO_MORE_LOGS)"
proof (cases "process self")
  case None
  with assms show ?thesis by (simp add: step_not_started)
next
  case (Some p)
  show ?thesis
  proof (cases "process_status self")
    case None
    with Some assms show ?thesis by (simp add: step_no_status)
  next
    case st: (Some st)
    show ?thesis
    proof (cases "st = FINISHED_WITH_NO_MORE_LOGS")
      case True
      with Some st assms show ?thesis by (auto simp: step_finished)
    next
      case False
      obtain c ev1 where cap: "capture_output_line_from_process ob = (c, ev1)"
        by (cases "capture_output_line_from_process ob") auto
      show ?thesis
      proof (cases c)
        case (Inl e)
        with Some st False cap assms show ?thesis by (simp add: step_raises)
      next
        case (Inr st')
        with Some st False cap assms show ?thesis
          by (auto simp: step_running Let_def split: if_splits prod.splits sum.splits)
      qed
    qed
  qed
qed

lemma step_all_frame:
  "step_all w ob k ss fin rl = (res, w', ev) \<Longrightarrow> x \<notin> set ss \<Longrightarrow> heap w' x = heap w x"
proof (induction ss arbitrary: w k fin rl ev)
  case Nil
  then show ?case by simp
next
  case (Cons s ss)
  obtain r1 s1 lc1 ev1 where st: "execution_loop_iter (last_called w) (heap w s) (ob k) = (r1, s1, lc1, ev1)"
    by (cases "execution_loop_iter (last_called w) (heap w s) (ob k)") auto
  show ?case
  proof (cases r1)
    case (Inl e)
    with Cons.prems st show ?thesis by auto
  next
    case (Inr b)
    let ?w1 = "w\<lparr>heap := (heap w)(s := s1), last_called := lc1\<rparr>"
    from Inr Cons.prems st obtain fin1 rl1 ev2 where
      rest: "step_all ?w1 ob (Suc k) ss fin1 rl1 = (res, w', ev2)"
      by (auto split: prod.splits)
    from Cons.prems have "x \<notin> set ss" "x \<noteq> s" by auto
    with Cons.IH[OF rest] show ?thesis by simp
  qed
qed

lemma step_all_absorbing:
  "step_all w ob k ss fin rl = (res, w', ev) \<Longrightarrow>
   process_status (heap w x) = Some FINISHED_WITH_NO_MORE_LOGS \<Longrightarrow>
   process_status (heap w' x) = Some FINISHED_WITH_NO_MORE_LOGS"
proof (induction ss arbitrary: w k fin rl ev)
  case Nil
  then show ?case by simp
next
  case (Cons s ss)
  obtain r1 s1 lc1 ev1 where st: "execution_loop_iter (last_called w) (heap w s) (ob k) = (r1, s1, lc1, ev1)"
    by (cases "execution_loop_iter (last_called w) (heap w s) (ob k)") auto
  let ?w1 = "w\<lparr>heap := (heap w)(s := s1), last_called := lc1\<rparr>"
  have keep: "process_status (heap ?w1 x) = Some FINISHED_WITH_NO_MORE_LOGS"
  proof (cases "x = s")
    case True
    with Cons.prems(2) step_absorbing[OF _ st] show ?thesis by simp
  next
    case False
    with Cons.prems(2) show ?thesis by simp
  qed
  show ?case
  proof (cases r1)
    case (Inl e)
    with Cons.prems(1) st keep show ?thesis by auto
  next
    case (Inr b)
    from Inr Cons.prems(1) st obtain fin1 rl1 ev2 where
      rest: "step_all ?w1 ob (Suc k) ss fin1 rl1 = (res, w', ev2)"
      by (auto split: prod.splits)
    from Cons.IH[OF rest keep] show ?thesis .
  qed
qed

text \<open>
  After a pass that ran to its end, \<^verbatim>\<open>finished_processes\<close> holds what it held
  before and the supervisors of the pass whose status is
  \<^verbatim>\<open>FINISHED_WITH_NO_MORE_LOGS\<close>: those whose iteration returned \<^verbatim>\<open>False\<close>.
\<close>

lemma step_all_finished:
  "step_all w ob k ss fin rl = (Inr (fin', rl'), w', ev) \<Longrightarrow>
   set fin' =
     set fin \<union> {x \<in> set ss. process_status (heap w' x) = Some FINISHED_WITH_NO_MORE_LOGS}"
proof (induction ss arbitrary: w k fin rl ev)
  case Nil
  then show ?case by simp
next
  case (Cons s ss)
  obtain r1 s1 lc1 ev1 where st: "execution_loop_iter (last_called w) (heap w s) (ob k) = (r1, s1, lc1, ev1)"
    by (cases "execution_loop_iter (last_called w) (heap w s) (ob k)") auto
  let ?w1 = "w\<lparr>heap := (heap w)(s := s1), last_called := lc1\<rparr>"
  show ?case
  proof (cases r1)
    case (Inl e)
    with Cons.prems st show ?thesis by auto
  next
    case (Inr b)
    let ?fin1 = "if b then fin else fin @ [s]"
    from Inr Cons.prems st obtain rl1 ev2 where
      rest: "step_all ?w1 ob (Suc k) ss ?fin1 rl1 = (Inr (fin', rl'), w', ev2)"
      by (auto split: prod.splits)
    from Cons.IH[OF rest] have ih: "set fin' =
      set ?fin1 \<union> {x \<in> set ss. process_status (heap w' x) = Some FINISHED_WITH_NO_MORE_LOGS}" .
    from step_false_iff_finished[OF st[unfolded Inr]]
    have fb: "(\<not> b) = (process_status s1 = Some FINISHED_WITH_NO_MORE_LOGS)" .
    have head: "(process_status (heap w' s) = Some FINISHED_WITH_NO_MORE_LOGS) =
                  (\<not> b \<or> (s \<in> set ss \<and>
                     process_status (heap w' s) = Some FINISHED_WITH_NO_MORE_LOGS))"
    proof (cases b)
      case False
      with fb have "process_status (heap ?w1 s) = Some FINISHED_WITH_NO_MORE_LOGS" by simp
      from step_all_absorbing[OF rest this] False show ?thesis by simp
    next
      case True
      show ?thesis
      proof (cases "s \<in> set ss")
        case in_rest: True
        with True show ?thesis by simp
      next
        case False
        from step_all_frame[OF rest False] have "heap w' s = s1" by simp
        with True fb False show ?thesis by simp
      qed
    qed
    from ih head show ?thesis by auto
  qed
qed

lemma kill_events:
  "set (snd (kill self ko)) \<subseteq>
     {Poll} \<union> range ModuleLog \<union> range Signal \<union> range SignalFailed \<union> range SignalSkipped \<union>
     range Communicate \<union> range ProcessLog"
  by (auto simp: kill_def send_signal_def Let_def
        split: option.splits send_obs.splits sum.splits prod.splits if_splits)

lemma stop_events: "Readline \<notin> set (snd (snd (stop self ko)))"
  using kill_events[of self ko] by (auto simp: stop_result)

lemma stop_logs:
  "process self \<noteq> None \<Longrightarrow> ModuleLog Stopping \<in> set (snd (snd (stop self ko)))"
  by (auto simp: stop_result)

lemma stop_all_process:
  "stop_all w kobs k ss = (Inr (), w', ev) \<Longrightarrow>
   process (heap w' x) = (if x \<in> set ss then None else process (heap w x))"
proof (induction ss arbitrary: w k ev)
  case Nil
  then show ?case by simp
next
  case (Cons s ss)
  obtain r1 s1 ev1 where st: "stop (heap w s) (kobs k) = (r1, s1, ev1)"
    by (cases "stop (heap w s) (kobs k)")
  let ?w1 = "w\<lparr>heap := (heap w)(s := s1)\<rparr>"
  from Cons.prems st have r1: "r1 = Inr ()" by (cases r1) auto
  with st have c: "process s1 = None"
    using stop_handle[of "heap w s" "kobs k"] stop_returns[of "heap w s" "kobs k"] by auto
  from Cons.prems st r1 obtain ev2 where rest: "stop_all ?w1 kobs (Suc k) ss = (Inr (), w', ev2)"
    by (auto split: prod.splits)
  from Cons.IH[OF rest] c show ?case by simp
qed

lemma stop_all_logs:
  "stop_all w kobs k ss = (r, w', ev) \<Longrightarrow> r = Inr () \<Longrightarrow> x \<in> set ss \<Longrightarrow>
   process (heap w x) \<noteq> None \<Longrightarrow> On x (ModuleLog Stopping) \<in> set ev"
proof (induction ss arbitrary: w k ev)
  case Nil
  then show ?case by simp
next
  case (Cons s ss)
  obtain r1 s1 ev1 where st: "stop (heap w s) (kobs k) = (r1, s1, ev1)"
    by (cases "stop (heap w s) (kobs k)")
  let ?w1 = "w\<lparr>heap := (heap w)(s := s1)\<rparr>"
  from Cons.prems(1,2) st have r1: "r1 = Inr ()" by (cases r1) auto
  from Cons.prems(1) st r1 obtain ev2 where rest: "stop_all ?w1 kobs (Suc k) ss = (r, w', ev2)"
    and ev: "ev = map (On s) ev1 @ ev2"
    by (auto split: prod.splits)
  show ?case
  proof (cases "x = s")
    case True
    with Cons.prems(4) stop_logs[of "heap w s" "kobs k"] st have "ModuleLog Stopping \<in> set ev1"
      by simp
    with True ev show ?thesis by auto
  next
    case False
    with Cons.prems have "x \<in> set ss" "process (heap ?w1 x) \<noteq> None" by simp_all
    from Cons.IH[OF rest Cons.prems(2) this] ev show ?thesis by simp
  qed
qed

lemma stop_all_events:
  "stop_all w kobs k ss = (r, w', ev) \<Longrightarrow> On x Readline \<notin> set ev"
proof (induction ss arbitrary: w k ev)
  case Nil
  then show ?case by simp
next
  case (Cons s ss)
  obtain r1 s1 ev1 where st: "stop (heap w s) (kobs k) = (r1, s1, ev1)"
    by (cases "stop (heap w s) (kobs k)")
  from stop_events[of "heap w s" "kobs k"] st have no: "Readline \<notin> set ev1" by simp
  let ?w1 = "w\<lparr>heap := (heap w)(s := s1)\<rparr>"
  show ?case
  proof (cases r1)
    case (Inl e)
    with Cons.prems st no show ?thesis by auto
  next
    case (Inr u)
    with Cons.prems st obtain ev2 where rest: "stop_all ?w1 kobs (Suc k) ss = (r, w', ev2)"
      and ev: "ev = map (On s) ev1 @ ev2"
      by (auto split: prod.splits)
    from Cons.IH[OF rest] ev no show ?thesis by auto
  qed
qed

text \<open>
  The essential-exit policy where it is reached. In a pass that runs to its end (no
  iteration raises), the supervisors collected as finished are those of the pass whose
  status is \<^verbatim>\<open>FINISHED_WITH_NO_MORE_LOGS\<close>. If one of them is essential and the
  stops that follow all return, the group logs the essential exits, calls \<^verbatim>\<open>stop\<close>
  on every supervisor still in the active list, and returns: the result does not depend
  on any later observation, its trace is the pass, the log line and the stops, every
  remaining supervisor is logged as stopping and is left without a handle, and the stops
  read nothing. The cause of the exit plays no part.
\<close>

theorem essential_exit_stops_the_rest:
  "subs \<noteq> [] \<Longrightarrow>
   step_all w (po_step po) 0 subs [] False = (Inr (fin, rl), w', ev) \<Longrightarrow>
   s \<in> set fin \<Longrightarrow> s \<in> set ess \<Longrightarrow>
   stop_all w' (po_stop po) 0 (filter (\<lambda>x. x \<notin> set fin) subs) = (Inr (), w'', ev') \<Longrightarrow>
   set fin = {x \<in> set subs. process_status (heap w' x) = Some FINISHED_WITH_NO_MORE_LOGS} \<and>
   supervise w subs ess (po # pos) =
     Some (Inr (), w'', ev @ [EssentialExited (filter (\<lambda>x. x \<in> set ess) fin)] @ ev') \<and>
   (\<forall>x \<in> set subs. x \<notin> set fin \<longrightarrow>
      On x (ModuleLog Stopping) \<in> set ev' \<and> process (heap w'' x) = None) \<and>
   (\<forall>x. On x Readline \<notin> set ev')"
proof -
  assume ne: "subs \<noteq> []"
    and pass: "step_all w (po_step po) 0 subs [] False = (Inr (fin, rl), w', ev)"
    and s: "s \<in> set fin" "s \<in> set ess"
    and stops: "stop_all w' (po_stop po) 0 (filter (\<lambda>x. x \<notin> set fin) subs) = (Inr (), w'', ev')"
  from s have fe: "filter (\<lambda>x. x \<in> set ess) fin \<noteq> []"
    by (auto simp: filter_empty_conv)
  have run: "supervise w subs ess (po # pos) =
     Some (Inr (), w'', ev @ [EssentialExited (filter (\<lambda>x. x \<in> set ess) fin)] @ ev')"
    using ne pass fe stops by (simp add: Let_def)
  have each: "On x (ModuleLog Stopping) \<in> set ev' \<and> process (heap w'' x) = None"
    if x: "x \<in> set subs" "x \<notin> set fin" for x
  proof -
    from step_all_handles[OF pass x(1)] step_all_process[OF pass, of x]
    have h: "process (heap w' x) \<noteq> None" by simp
    from x have m: "x \<in> set (filter (\<lambda>x. x \<notin> set fin) subs)" by simp
    from stop_all_logs[OF stops refl m h] stop_all_process[OF stops, of x] m
    show ?thesis by simp
  qed
  from step_all_finished[OF pass]
  have fin: "set fin =
      {x \<in> set subs. process_status (heap w' x) = Some FINISHED_WITH_NO_MORE_LOGS}" by simp
  from fin run each stop_all_events[OF stops] show ?thesis by blast
qed


text \<open>
  The policy at work on three started supervisors of which the first is essential: when
  its child exits with nothing left to read, and when its condition fails on the first
  check while the children all keep running.
\<close>

theorem essential_exit_stops_the_rest_witness:
  "supervise (started_fleet []) [0, 1, 2] [0] [first_exits_pass 1001] =
     Some (Inr (),
           fst (snd (stop_all (fst (snd (step_all (started_fleet [])
                                        (po_step (first_exits_pass 1001)) 0 [0, 1, 2] [] False)))
                  (po_stop (first_exits_pass 1001)) 0 [1, 2])),
           snd (snd (step_all (started_fleet []) (po_step (first_exits_pass 1001))
                       0 [0, 1, 2] [] False)) @
           [EssentialExited [0]] @
           snd (snd (stop_all (fst (snd (step_all (started_fleet [])
                                        (po_step (first_exits_pass 1001)) 0 [0, 1, 2] [] False)))
                  (po_stop (first_exits_pass 1001)) 0 [1, 2]))) \<and>
   On 1 (ModuleLog Stopping) \<in>
     set (snd (snd (stop_all (fst (snd (step_all (started_fleet [])
                                        (po_step (first_exits_pass 1001)) 0 [0, 1, 2] [] False)))
                  (po_stop (first_exits_pass 1001)) 0 [1, 2]))) \<and>
   process (heap (fst (snd (stop_all (fst (snd (step_all (started_fleet [])
                                              (po_step (first_exits_pass 1001))
                                              0 [0, 1, 2] [] False)))
                  (po_stop (first_exits_pass 1001)) 0 [1, 2]))) 2) = None \<and>
   fst (step_all (started_fleet [fails_on_check 1]) (po_step (quiet_pass 1001))
          0 [0, 1, 2] [] False) = Inr ([0], False) \<and>
   On 2 (ModuleLog Stopping) \<in>
     set (snd (snd (stop_all (fst (snd (step_all (started_fleet [fails_on_check 1])
                                      (po_step (quiet_pass 1001)) 0 [0, 1, 2] [] False)))
                  (po_stop (quiet_pass 1001)) 0 [1, 2])))"
proof -
  let ?S = "step_all (started_fleet []) (po_step (first_exits_pass 1001)) 0 [0, 1, 2] [] False"
  let ?K = "stop_all (fst (snd ?S)) (po_stop (first_exits_pass 1001)) 0 [1, 2]"
  have r: "fst ?S = Inr ([0], False)"
    by (simp add: started_fleet_def first_exits_pass_def seen_def running_def worker_def
          init_Subprocess_def execution_loop_iter_def capture_output_line_from_process_def
          check_process_conditions_def throttle_def check_process_conditions_body_def)
  have pass: "?S = (Inr ([0], False), fst (snd ?S), snd (snd ?S))"
    using r by (simp add: prod_eq_iff)
  have k: "fst ?K = Inr ()"
    by (simp add: started_fleet_def first_exits_pass_def seen_def running_def worker_def
          init_Subprocess_def execution_loop_iter_def capture_output_line_from_process_def
          check_process_conditions_def throttle_def check_process_conditions_body_def
          stop_result kill_returns_def kill_graceful SIGTERM_DEFAULT_PATIENCE_INTERVAL_def)
  have f: "filter (\<lambda>x. x \<notin> set [0]) [0, 1, 2::nat] = [1, 2]" by simp
  have stops: "stop_all (fst (snd ?S)) (po_stop (first_exits_pass 1001)) 0
                 (filter (\<lambda>x. x \<notin> set [0]) [0, 1, 2]) = (Inr (), fst (snd ?K), snd (snd ?K))"
    using k by (simp add: f prod_eq_iff)
  have ne: "[0, 1, 2::nat] \<noteq> []" by simp
  have m: "(0::nat) \<in> set [0]" by simp
  let ?T = "step_all (started_fleet [fails_on_check 1]) (po_step (quiet_pass 1001))
              0 [0, 1, 2] [] False"
  let ?L = "stop_all (fst (snd ?T)) (po_stop (quiet_pass 1001)) 0 [1, 2]"
  have r': "fst ?T = Inr ([0], False)"
    by (simp add: started_fleet_def quiet_pass_def seen_def running_def worker_def
          init_Subprocess_def fails_on_check_def kill_graceful
          SIGTERM_DEFAULT_PATIENCE_INTERVAL_def
          execution_loop_iter_def capture_output_line_from_process_def
          check_process_conditions_def throttle_def check_process_conditions_body_def)
  have pass': "?T = (Inr ([0], False), fst (snd ?T), snd (snd ?T))"
    using r' by (simp add: prod_eq_iff)
  have k': "fst ?L = Inr ()"
    by (simp add: started_fleet_def quiet_pass_def seen_def running_def worker_def
          init_Subprocess_def fails_on_check_def kill_graceful
          SIGTERM_DEFAULT_PATIENCE_INTERVAL_def
          execution_loop_iter_def capture_output_line_from_process_def
          check_process_conditions_def throttle_def check_process_conditions_body_def
          stop_result kill_returns_def)
  have stops': "stop_all (fst (snd ?T)) (po_stop (quiet_pass 1001)) 0
                 (filter (\<lambda>x. x \<notin> set [0]) [0, 1, 2]) = (Inr (), fst (snd ?L), snd (snd ?L))"
    using k' by (simp add: f prod_eq_iff)
  have failed: "On 2 (ModuleLog Stopping) \<in> set (snd (snd ?L))"
    using essential_exit_stops_the_rest[OF ne pass' m m stops', of "[]"] by simp
  from essential_exit_stops_the_rest[OF ne pass m m stops, of "[]"] r' failed
  show ?thesis by simp
qed

section \<open>An essential exit in a pass that is cut short\<close>

text \<open>
  C2 fails when an exception cuts the pass or the stops short. The essential supervisor 0
  exits and its iteration returns \<^verbatim>\<open>False\<close>; supervisor 1 is running. In the first
  run the spawn of supervisor 2 had failed, so its iteration raises in the same pass: the
  exception leaves \<^verbatim>\<open>run_subprocesses\<close>, and supervisor 1 is not stopped and keeps its
  handle. In the second run all three were spawned and the pass ends; stopping supervisor
  1 raises (its last output is not UTF-8), the exception leaves \<^verbatim>\<open>run_subprocesses\<close>,
  and supervisor 2 is never stopped.
\<close>

theorem essential_exit_counterexample:
  "(case run_subprocesses (fleet []) [0, 1, 2] [0] (spawn_fails_at 2) [first_exits_pass 1001] of
      None \<Rightarrow> False
    | Some (r, w, tr) \<Rightarrow>
        r = Inl (RuntimeError ''Process is not started'') \<and>
        process_status (heap w 0) = Some FINISHED_WITH_NO_MORE_LOGS \<and>
        process (heap w 1) = Some 101 \<and>
        On 1 (ModuleLog Stopping) \<notin> set tr \<and>
        On 1 (Signal SIGTERM) \<notin> set tr) \<and>
   (case run_subprocesses (fleet []) [0, 1, 2] [0] all_spawn
           [\<lparr>po_step = po_step (first_exits_pass 1001), po_stop = (\<lambda>k. garbled)\<rparr>] of
      None \<Rightarrow> False
    | Some (r, w, tr) \<Rightarrow>
        r = Inl UnicodeDecodeError \<and>
        process_status (heap w 0) = Some FINISHED_WITH_NO_MORE_LOGS \<and>
        process (heap w 2) = Some 102 \<and>
        On 2 (ModuleLog Stopping) \<notin> set tr \<and>
        On 2 (Signal SIGTERM) \<notin> set tr)"
  by (simp add: run_subprocesses_def fleet_def spawn_fails_at_def all_spawn_def spawned_def
        spawn_fails_def start_def start_process_def worker_def init_Subprocess_def Let_def
        first_exits_pass_def seen_def
        stop_result kill_returns_def kill_garbled SIGTERM_DEFAULT_PATIENCE_INTERVAL_def
        execution_loop_iter_def capture_output_line_from_process_def
        check_process_conditions_def throttle_def check_process_conditions_body_def)

section \<open>Exceptions in the execution loop\<close>

text \<open>
  When \<^verbatim>\<open>start\<close> runs the loop itself, an exception raised by an iteration is caught
  there: \<^verbatim>\<open>start\<close> returns normally and the exception is logged.
\<close>

theorem start_catches:
  assumes "st_spawn so = Inr pid"
    and "execution_loop lc
           (self\<lparr>start_time := Some (st_time so), process := Some pid,
                 process_status := Some RUNNING_WITH_NO_LOG_READ\<rparr>) obs =
         Some (Inl e, self', lc', ev)"
  shows "start lc self so True obs =
           Some (self', lc',
                 map Prepare [0..<length (conditions self)] @
                 [ModuleLog Starting, Spawn (cmd self), ModuleLog (Started pid)] @
                 [AtexitRegister] @ ev @ [ModuleLog (StartFailed e)])"
  using assms by (simp add: start_def start_process_def Let_def)

theorem start_catches_witness:
  "start 0 (worker []) (spawned 7) True [broken_pipe 1001] =
     Some ((worker [])\<lparr>start_time := Some 1000, process := Some 7,
                       process_status := Some RUNNING_WITH_NO_LOG_READ\<rparr>,
           0,
           [ModuleLog Starting, Spawn [''airflow'', ''worker''], ModuleLog (Started 7),
            AtexitRegister, Readline,
            ModuleLog (StartFailed (OSError ''read failed''))])"
proof -
  have sp: "st_spawn (spawned 7) = Inr 7" by (simp add: spawned_def)
  have loop: "execution_loop 0
           ((worker [])\<lparr>start_time := Some (st_time (spawned 7)), process := Some 7,
                 process_status := Some RUNNING_WITH_NO_LOG_READ\<rparr>) [broken_pipe 1001] =
         Some (Inl (OSError ''read failed''),
               (worker [])\<lparr>start_time := Some 1000, process := Some 7,
                       process_status := Some RUNNING_WITH_NO_LOG_READ\<rparr>, 0, [Readline])"
    by (simp add: spawned_def broken_pipe_def worker_def init_Subprocess_def
          execution_loop_iter_def capture_output_line_from_process_def)
  from start_catches[OF sp loop] show ?thesis
    by (simp add: worker_def init_Subprocess_def)
qed

text \<open>
  When the group runs the loop, nothing catches it: an exception raised by an iteration
  ends the pass and leaves the \<^verbatim>\<open>while\<close> loop with it.
\<close>

lemma supervise_propagates:
  assumes "subs \<noteq> []"
    and "step_all w (po_step po) 0 subs [] False = (Inl e, w', ev)"
  shows "supervise w subs ess (po # pos) = Some (Inl e, w', ev)"
  using assms by simp

text \<open>
  C7 fails in the group. The spawn of supervisor 1 fails: \<^verbatim>\<open>start(False)\<close> logs it and
  returns, and the first pass of \<^verbatim>\<open>run_subprocesses\<close> raises
  \<^verbatim>\<open>RuntimeError("Process is not started")\<close> to its caller, with supervisor 0 still
  running and never stopped. The same happens when reading the output of a started child
  raises.
\<close>

theorem group_step_exception_propagates:
  "(case run_subprocesses (fleet []) [0, 1] [] (spawn_fails_at 1) [quiet_pass 1001] of
      None \<Rightarrow> False
    | Some (r, w, tr) \<Rightarrow>
        r = Inl (RuntimeError ''Process is not started'') \<and>
        process (heap w 0) = Some 100 \<and>
        On 1 (ModuleLog (StartFailed (OSError ''No such file or directory''))) \<in> set tr \<and>
        On 0 (ModuleLog Stopping) \<notin> set tr \<and>
        On 0 (Signal SIGTERM) \<notin> set tr) \<and>
   (case run_subprocesses (fleet []) [0, 1] [] all_spawn
           [\<lparr>po_step = (\<lambda>k. if k = 1 then broken_pipe 1001 else seen 1001 [] None),
             po_stop = (\<lambda>k. graceful)\<rparr>] of
      None \<Rightarrow> False
    | Some (r, w, tr) \<Rightarrow>
        r = Inl (OSError ''read failed'') \<and>
        process (heap w 0) = Some 100 \<and>
        On 0 (ModuleLog Stopping) \<notin> set tr)"
  by (simp add: run_subprocesses_def fleet_def spawn_fails_at_def all_spawn_def spawned_def
        spawn_fails_def start_def start_process_def worker_def init_Subprocess_def Let_def
        quiet_pass_def seen_def broken_pipe_def
        execution_loop_iter_def capture_output_line_from_process_def
        check_process_conditions_def throttle_def check_process_conditions_body_def)

section \<open>The throttle\<close>

text \<open>
  For the calls that reach one cell: an evaluation checks every condition once, in order;
  a call less than 60 seconds later returns \<^verbatim>\<open>None\<close> and checks nothing; a call 60
  seconds later or more checks every condition again.
\<close>

theorem gate_window:
  assumes "\<not> t1 - lc < 60" and "process_status self = Some st"
    and "check_process_conditions lc t1 self = (r1, s1, lc1, e1)"
  shows "e1 = map Check [0..<length (conditions self)] \<and> lc1 = t1 \<and>
         (t2 - t1 < 60 \<longrightarrow> check_process_conditions lc1 t2 s1 = (Inr None, s1, t1, [])) \<and>
         (\<not> t2 - t1 < 60 \<longrightarrow>
            snd (snd (snd (check_process_conditions lc1 t2 s1))) =
              map Check [0..<length (conditions self)])"
proof -
  obtain rs cs ev where ca: "check_all st 0 (conditions self) = (rs, cs, ev)"
    by (cases "check_all st 0 (conditions self)") auto
  from gate_evaluated[OF assms(1,2) ca] assms(3)
  have one: "s1 = self\<lparr>conditions := cs\<rparr>" "lc1 = t1" "e1 = ev" by simp_all
  from check_all_events[OF ca] have ev: "ev = map Check [0..<length (conditions self)]" by simp
  from check_all_lengths[OF ca] have len: "length cs = length (conditions self)" by simp
  have again: "snd (snd (snd (check_process_conditions lc1 t2 s1))) =
              map Check [0..<length (conditions self)]" if late: "\<not> t2 - t1 < 60"
  proof -
    obtain rs' cs' ev' where cb: "check_all st 0 (conditions s1) = (rs', cs', ev')"
      by (cases "check_all st 0 (conditions s1)") auto
    have "process_status s1 = Some st" using one assms(2) by simp
    from gate_evaluated[OF _ this cb, of t2 lc1] late one
    have "snd (snd (snd (check_process_conditions lc1 t2 s1))) = ev'" by simp
    with check_all_events[OF cb] one len show ?thesis by simp
  qed
  from one ev again show ?thesis by (simp add: gate_throttled)
qed

theorem gate_window_witness:
  "check_process_conditions 1000 1030
     ((running 7 [healthy])\<lparr>conditions := [healthy\<lparr>cond_state := 1\<rparr>]\<rparr>) =
     (Inr None, (running 7 [healthy])\<lparr>conditions := [healthy\<lparr>cond_state := 1\<rparr>]\<rparr>,
      1000, []) \<and>
   snd (snd (snd (check_process_conditions 1000 1060
     ((running 7 [healthy])\<lparr>conditions := [healthy\<lparr>cond_state := 1\<rparr>]\<rparr>)))) = [Check 0]"
proof -
  let ?s1 = "(running 7 [healthy])\<lparr>conditions := [healthy\<lparr>cond_state := 1\<rparr>]\<rparr>"
  have a: "\<not> (1000::real) - 0 < 60" by simp
  have b: "process_status (running 7 [healthy]) = Some RUNNING_WITH_NO_LOG_READ"
    by (simp add: running_def)
  have c: "check_process_conditions 0 1000 (running 7 [healthy]) =
             (Inr (Some []), ?s1, 1000, [Check 0])"
    by (simp add: running_def worker_def init_Subprocess_def healthy_def
          check_process_conditions_def throttle_def check_process_conditions_body_def)
  have d: "length (conditions (running 7 [healthy])) = 1"
    by (simp add: running_def worker_def init_Subprocess_def)
  have x: "check_process_conditions 1000 1030 ?s1 = (Inr None, ?s1, 1000, [])"
    using gate_window[OF a b c, of 1030] by simp
  have "snd (snd (snd (check_process_conditions 1000 1060 ?s1))) =
          map Check [0..<length (conditions (running 7 [healthy]))]"
    using gate_window[OF a b c, of 1060] by simp
  then have y: "snd (snd (snd (check_process_conditions 1000 1060 ?s1))) = [Check 0]"
    by (simp only: d) simp
  from x y show ?thesis by (rule conjI)
qed

text \<open>
  C5 fails between supervisors. The cell is the one of the decorated method, shared by
  all instances. Supervisor 7 has its conditions evaluated at time 1000; the gate of
  supervisor 8, called one second later for the first time ever, is throttled: its
  condition, which would fail, is not checked. Had the window been its own the check would
  have been made. In a group, the second supervisor of the list is therefore never
  killed by its failing condition in the first pass.
\<close>

theorem throttle_is_shared:
  "check_process_conditions 0 1000 (running 7 [healthy]) =
     (Inr (Some []), (running 7 [healthy])\<lparr>conditions := [healthy\<lparr>cond_state := 1\<rparr>]\<rparr>,
      1000, [Check 0]) \<and>
   check_process_conditions 1000 1001 (running 8 [fails_on_check 1]) =
     (Inr None, running 8 [fails_on_check 1], 1000, []) \<and>
   check_process_conditions 0 1001 (running 8 [fails_on_check 1]) =
     (Inr (Some [\<lparr>successful = False, message = ''unhealthy''\<rparr>]),
      (running 8 [fails_on_check 1])\<lparr>conditions := [(fails_on_check 1)\<lparr>cond_state := 1\<rparr>]\<rparr>,
      1001, [Check 0]) \<and>
   fst (step_all (started_fleet [fails_on_check 1]) (po_step (quiet_pass 1001)) 0 [0, 1] [] False) =
     Inr ([0], False)"
  by (simp add: running_def worker_def init_Subprocess_def healthy_def fails_on_check_def
        started_fleet_def quiet_pass_def seen_def kill_graceful
        SIGTERM_DEFAULT_PATIENCE_INTERVAL_def
        execution_loop_iter_def capture_output_line_from_process_def
        check_process_conditions_def throttle_def check_process_conditions_body_def)

end
